theory Spec2Isabelle
  imports Main "HOL-Library.Sublist"
begin

section \<open>The file system\<close>

text \<open>
  \<^verbatim>\<open>inject\<close> (src/rhiza/commands/inject.py) works on the file system through
  \<^verbatim>\<open>pathlib\<close> and \<^verbatim>\<open>shutil\<close>.  The file system is a tree: a regular file with
  its bytes, or a directory with its entries.  A path is the list of its components below
  the root, so \<^verbatim>\<open>/home/u/repo\<close> is \<open>[''home'', ''u'', ''repo'']\<close>.

  Scope of the tree: there are no symbolic links, no permissions and no I/O errors other
  than the ones the shape of the tree causes (a missing entry, a file where a directory is
  needed).  A component \<^verbatim>\<open>..\<close> is resolved by the operating system, not by pathlib; the
  tree has no parent links, so the statements about the copy phase are made for include
  entries without such a component (\<open>plain\<close> below).
\<close>

type_synonym path = "string list"

datatype node = File string | Dir "string \<Rightarrow> node option"

datatype exc =
    SystemExit int
  | AttributeError
  | TypeError
  | ValueError
  | YAMLError
  | CalledProcessError
  | FileExistsError
  | FileNotFoundError
  | NotADirectoryError
  | IsADirectoryError
  | OSError

fun lookup :: "node \<Rightarrow> path \<Rightarrow> node option" where
  "lookup n [] = Some n"
| "lookup (File c) (x # xs) = None"
| "lookup (Dir m) (x # xs) = (case m x of None \<Rightarrow> None | Some k \<Rightarrow> lookup k xs)"

text \<open>\<^verbatim>\<open>Path.exists()\<close> and \<^verbatim>\<open>Path.is_dir()\<close>: both answer False when a component on the
  way is missing or is a regular file.\<close>

definition path_exists :: "node \<Rightarrow> path \<Rightarrow> bool" where
  "path_exists f p = (case lookup f p of None \<Rightarrow> False | Some n \<Rightarrow> True)"

definition is_dir :: "node \<Rightarrow> path \<Rightarrow> bool" where
  "is_dir f p = (case lookup f p of Some (Dir m) \<Rightarrow> True | _ \<Rightarrow> False)"

text \<open>Writing (\<open>Some n\<close>) or removing (\<open>None\<close>) the entry at a path below the root.  The
  entry's parent must be an existing directory; otherwise nothing changes.\<close>

fun put :: "path \<Rightarrow> node option \<Rightarrow> node \<Rightarrow> node" where
  "put [] v n = n"
| "put (x # xs) v (File c) = File c"
| "put (x # xs) v (Dir m) =
     (if xs = [] then Dir (m(x := v))
      else (case m x of None \<Rightarrow> Dir m | Some k \<Rightarrow> Dir (m(x \<mapsto> put xs v k))))"

text \<open>\<^verbatim>\<open>Path.mkdir(parents=True, exist_ok=True)\<close>: missing directories are created from the
  first missing component on; an existing directory is accepted; a regular file at the path
  itself raises FileExistsError, a regular file above it NotADirectoryError.\<close>

fun new_dirs :: "path \<Rightarrow> node" where
  "new_dirs [] = Dir Map.empty"
| "new_dirs (x # xs) = Dir [x \<mapsto> new_dirs xs]"

fun mkdir_parents :: "path \<Rightarrow> node \<Rightarrow> exc + node" where
  "mkdir_parents [] (Dir m) = Inr (Dir m)"
| "mkdir_parents [] (File c) = Inl FileExistsError"
| "mkdir_parents (x # xs) (File c) = Inl NotADirectoryError"
| "mkdir_parents (x # xs) (Dir m) =
     (case m x of
        None \<Rightarrow> Inr (Dir (m(x \<mapsto> new_dirs xs)))
      | Some k \<Rightarrow>
          (case mkdir_parents xs k of
             Inl e \<Rightarrow> Inl e
           | Inr k' \<Rightarrow> Inr (Dir (m(x \<mapsto> k')))))"

text \<open>\<^verbatim>\<open>shutil.rmtree\<close> removes a directory with everything below it; on a missing path it
  raises FileNotFoundError, on a regular file NotADirectoryError.  The root directory
  itself cannot be removed: its entries go, then \<^verbatim>\<open>rmdir\<close> fails.\<close>

definition rmtree :: "path \<Rightarrow> node \<Rightarrow> exc option \<times> node" where
  "rmtree p f =
     (case lookup f p of
        None \<Rightarrow> (Some FileNotFoundError, f)
      | Some (File c) \<Rightarrow> (Some NotADirectoryError, f)
      | Some (Dir m) \<Rightarrow>
          (if p = [] then (Some OSError, Dir Map.empty) else (None, put p None f)))"

text \<open>\<^verbatim>\<open>Path.unlink()\<close> removes a regular file.\<close>

definition unlink :: "path \<Rightarrow> node \<Rightarrow> exc option \<times> node" where
  "unlink p f =
     (case lookup f p of
        None \<Rightarrow> (Some FileNotFoundError, f)
      | Some (Dir m) \<Rightarrow> (Some IsADirectoryError, f)
      | Some (File c) \<Rightarrow> (None, put p None f))"

text \<open>\<^verbatim>\<open>shutil.copytree(src, dst)\<close> copies the directory \<open>src\<close> with everything below it
  to the new path \<open>dst\<close>; \<^verbatim>\<open>shutil.copy2(src, dst)\<close> copies one regular file.  Both are
  modelled for the way \<^verbatim>\<open>inject\<close> calls them: after lines 122 to 128 \<open>dst\<close> does not
  exist and its parent is a directory (lemma \<open>copy_destination_absent\<close> below), so neither
  raises FileExistsError and the copy is the new entry \<open>dst\<close>.\<close>

definition copytree :: "path \<Rightarrow> path \<Rightarrow> node \<Rightarrow> exc + node" where
  "copytree src dst f =
     (case lookup f src of
        None \<Rightarrow> Inl FileNotFoundError
      | Some (File c) \<Rightarrow> Inl NotADirectoryError
      | Some (Dir m) \<Rightarrow> Inr (put dst (Some (Dir m)) f))"

definition copy2 :: "path \<Rightarrow> path \<Rightarrow> node \<Rightarrow> exc + node" where
  "copy2 src dst f =
     (case lookup f src of
        None \<Rightarrow> Inl FileNotFoundError
      | Some (Dir m) \<Rightarrow> Inl IsADirectoryError
      | Some (File c) \<Rightarrow> Inr (put dst (Some (File c)) f))"

section \<open>Paths written as strings\<close>

text \<open>
  \<^verbatim>\<open>tmp_dir / path\<close> and \<^verbatim>\<open>target / path\<close> join a directory with an include entry.  pathlib
  splits the entry at \<^verbatim>\<open>/\<close>, drops empty components and \<^verbatim>\<open>.\<close>, and keeps \<^verbatim>\<open>..\<close>.  An
  entry that starts with \<^verbatim>\<open>/\<close> is absolute, and joining a directory with an absolute path
  gives the absolute path: \<^verbatim>\<open>Path("/tmp/x") / "/Makefile"\<close> is \<^verbatim>\<open>/Makefile\<close>.
\<close>

fun split_slash :: "string \<Rightarrow> string \<Rightarrow> string list" where
  "split_slash acc [] = [acc]"
| "split_slash acc (c # cs) =
     (if c = CHR ''/'' then acc # split_slash [] cs else split_slash (acc @ [c]) cs)"

definition parts :: "string \<Rightarrow> path" where
  "parts p = filter (\<lambda>x. x \<noteq> [] \<and> x \<noteq> ''.'') (split_slash [] p)"

definition is_absolute :: "string \<Rightarrow> bool" where
  "is_absolute p = (case p of [] \<Rightarrow> False | c # cs \<Rightarrow> c = CHR ''/'')"

definition joinpath :: "path \<Rightarrow> string \<Rightarrow> path" where
  "joinpath base p = (if is_absolute p then parts p else base @ parts p)"

definition plain :: "string \<Rightarrow> bool" where
  "plain p = (''..'' \<notin> set (parts p))"

section \<open>Manifest values\<close>

text \<open>What \<^verbatim>\<open>yaml.safe_load\<close> returns: the standard YAML scalars, sequences and mappings.\<close>

datatype yaml =
    YNull
  | YBool bool
  | YInt int
  | YStr string
  | YSeq "yaml list"
  | YMap "(yaml \<times> yaml) list"

text \<open>Python's truth value (\<^verbatim>\<open>not include_paths\<close>), iteration (\<^verbatim>\<open>for p in include_paths\<close>,
  \<^verbatim>\<open>*include_paths\<close>; \<open>None\<close> is the TypeError of a value that cannot be iterated) and
  \<^verbatim>\<open>dict.get\<close> with a string key.\<close>

fun truthy :: "yaml \<Rightarrow> bool" where
  "truthy YNull = False"
| "truthy (YBool b) = b"
| "truthy (YInt i) = (i \<noteq> 0)"
| "truthy (YStr s) = (s \<noteq> [])"
| "truthy (YSeq xs) = (xs \<noteq> [])"
| "truthy (YMap kvs) = (kvs \<noteq> [])"

fun py_iter :: "yaml \<Rightarrow> yaml list option" where
  "py_iter (YSeq xs) = Some xs"
| "py_iter (YStr s) = Some (map (\<lambda>c. YStr [c]) s)"
| "py_iter (YMap kvs) = Some (map fst kvs)"
| "py_iter v = None"

definition dict_get :: "(yaml \<times> yaml) list \<Rightarrow> string \<Rightarrow> yaml \<Rightarrow> yaml" where
  "dict_get kvs k d = (case map_of kvs (YStr k) of None \<Rightarrow> d | Some v \<Rightarrow> v)"

text \<open>The arguments of \<^verbatim>\<open>subprocess.run\<close> are converted in order: the first one that is
  not a string raises TypeError, the first string with a NUL byte raises ValueError.\<close>

fun argv :: "yaml list \<Rightarrow> exc + string list" where
  "argv [] = Inr []"
| "argv (YStr s # vs) =
     (if CHR 0x00 \<in> set s then Inl ValueError
      else (case argv vs of Inl e \<Rightarrow> Inl e | Inr ss \<Rightarrow> Inr (s # ss)))"
| "argv (v # vs) = Inl TypeError"

section \<open>The collaborators\<close>

text \<open>
  The YAML library, \<^verbatim>\<open>tempfile.mkdtemp\<close> and the version-control client are not code of
  this repository; they are parameters of the model.
  \<^item> \<open>yaml_dump\<close> and \<open>yaml_safe_load\<close> (\<open>None\<close>: the document does not parse);
  \<^item> \<open>tmp_dir\<close>: the name \<^verbatim>\<open>mkdtemp\<close> picks;
  \<^item> \<open>git_clone repo branch\<close>: the entries of the scratch directory after
    \<^verbatim>\<open>git clone --depth 1 --filter=blob:none --sparse --branch <branch>
    https://github.com/<repo>.git <tmp_dir>\<close>, where \<^verbatim>\<open><repo>\<close> is the manifest value as the
    f-string renders it (\<^verbatim>\<open>None\<close> for a missing field); \<open>None\<close> is a non-zero exit;
  \<^item> \<open>git_sparse_init\<close> and \<open>git_sparse_set paths\<close>: the entries of the scratch directory
    after \<^verbatim>\<open>git sparse-checkout init\<close> and \<^verbatim>\<open>git sparse-checkout set --skip-checks <paths>\<close>
    run in it.
  The client writes nowhere but in the scratch directory.
\<close>

type_synonym entries = "string \<Rightarrow> node option"

record env =
  yaml_dump :: "yaml \<Rightarrow> string"
  yaml_safe_load :: "string \<Rightarrow> yaml option"
  tmp_dir :: path
  git_clone :: "yaml \<Rightarrow> string \<Rightarrow> entries option"
  git_sparse_init :: "entries \<Rightarrow> entries option"
  git_sparse_set :: "string list \<Rightarrow> entries \<Rightarrow> entries option"

text \<open>\<^verbatim>\<open>tempfile.mkdtemp()\<close> creates a new, empty directory; it never reuses a name.\<close>

definition mkdtemp :: "env \<Rightarrow> node \<Rightarrow> exc + node" where
  "mkdtemp env f =
     (if path_exists f (tmp_dir env) then Inl FileExistsError
      else if tmp_dir env \<noteq> [] \<and> is_dir f (butlast (tmp_dir env))
        then Inr (put (tmp_dir env) (Some (Dir Map.empty)) f)
      else Inl FileNotFoundError)"

section \<open>The state of a run\<close>

text \<open>One constructor for each \<^verbatim>\<open>logger\<close> call of \<^verbatim>\<open>inject\<close>, and one for each call that
  creates the scratch directory or runs the client.\<close>

datatype event =
    Error_not_a_git_repository path
  | Info_target_repository path
  | Info_rhiza_branch string
  | Info_creating_default
  | Success_template_created
  | Info_using_existing
  | Error_no_include_paths
  | Info_include_paths
  | Info_include_item yaml
  | Info_cloning yaml yaml
  | Warning_not_found string
  | Warning_already_exists string
  | Success_add string
  | Success_materialized
  | Info_next_steps

datatype call =
    Mkdtemp path
  | Clone yaml string
  | Sparse_init
  | Sparse_set "string list"

record state =
  fs :: node
  logged :: "event list"
  calls :: "call list"

definition emit :: "event \<Rightarrow> state \<Rightarrow> state" where
  "emit e s = s\<lparr>logged := logged s @ [e]\<rparr>"

definition called :: "call \<Rightarrow> state \<Rightarrow> state" where
  "called c s = s\<lparr>calls := calls s @ [c]\<rparr>"

definition start :: "node \<Rightarrow> state" where
  "start f = \<lparr>fs = f, logged = [], calls = []\<rparr>"

section \<open>inject\<close>

text \<open>Lines 39 to 60: the manifest path, its parent directory, the default manifest.\<close>

definition template_file :: "path \<Rightarrow> path" where
  "template_file target = target @ [''.github'', ''template.yml'']"

definition default_include :: "yaml list" where
  "default_include =
     [YStr ''.github'', YStr ''/.editorconfig'', YStr ''/.gitignore'',
      YStr ''/.pre-commit-config.yaml'', YStr ''/Makefile'', YStr ''/pytest.ini'']"

definition template_content :: "string \<Rightarrow> yaml" where
  "template_content branch =
     YMap [(YStr ''template-repository'', YStr ''jebel-quant/rhiza''),
           (YStr ''template-branch'', YStr branch),
           (YStr ''include'', YSeq default_include)]"

definition ensure_template :: "env \<Rightarrow> path \<Rightarrow> string \<Rightarrow> state \<Rightarrow> exc option \<times> state" where
  "ensure_template env target branch s =
     (case mkdir_parents (butlast (template_file target)) (fs s) of
        Inl e \<Rightarrow> (Some e, s)
      | Inr f \<Rightarrow>
          (if \<not> path_exists f (template_file target) then
             (None,
              emit Success_template_created
                ((emit Info_creating_default s)
                   \<lparr>fs := put (template_file target)
                            (Some (File (yaml_dump env (template_content branch)))) f\<rparr>))
           else (None, emit Info_using_existing (s\<lparr>fs := f\<rparr>))))"

text \<open>Lines 65 and 66: \<^verbatim>\<open>open(template_file)\<close> and \<^verbatim>\<open>yaml.safe_load\<close>.\<close>

definition load_template :: "env \<Rightarrow> path \<Rightarrow> node \<Rightarrow> exc + yaml" where
  "load_template env target f =
     (case lookup f (template_file target) of
        None \<Rightarrow> Inl FileNotFoundError
      | Some (Dir m) \<Rightarrow> Inl IsADirectoryError
      | Some (File c) \<Rightarrow>
          (case yaml_safe_load env c of None \<Rightarrow> Inl YAMLError | Some config \<Rightarrow> Inr config))"

text \<open>Lines 110 to 134, one round of the loop.  \<open>remove_dst\<close> is lines 122 to 126.\<close>

definition remove_dst :: "path \<Rightarrow> node \<Rightarrow> exc option \<times> node" where
  "remove_dst dst f =
     (if path_exists f dst then (if is_dir f dst then rmtree dst f else unlink dst f)
      else (None, f))"

definition copy_path :: "path \<Rightarrow> path \<Rightarrow> bool \<Rightarrow> string \<Rightarrow> state \<Rightarrow> exc option \<times> state" where
  "copy_path tmp target force p s =
     (let src = joinpath tmp p; dst = joinpath target p in
      if \<not> path_exists (fs s) src then (None, emit (Warning_not_found p) s)
      else if path_exists (fs s) dst \<and> \<not> force then (None, emit (Warning_already_exists p) s)
      else
        (case remove_dst dst (fs s) of
           (Some e, f1) \<Rightarrow> (Some e, s\<lparr>fs := f1\<rparr>)
         | (None, f1) \<Rightarrow>
             (case mkdir_parents (butlast dst) f1 of
                Inl e \<Rightarrow> (Some e, s\<lparr>fs := f1\<rparr>)
              | Inr f2 \<Rightarrow>
                  (case (if is_dir f2 src then copytree src dst f2 else copy2 src dst f2) of
                     Inl e \<Rightarrow> (Some e, s\<lparr>fs := f2\<rparr>)
                   | Inr f3 \<Rightarrow> (None, emit (Success_add p) (s\<lparr>fs := f3\<rparr>))))))"

fun copy_all :: "path \<Rightarrow> path \<Rightarrow> bool \<Rightarrow> string list \<Rightarrow> state \<Rightarrow> exc option \<times> state" where
  "copy_all tmp target force [] s = (None, s)"
| "copy_all tmp target force (p # ps) s =
     (case copy_path tmp target force p s of
        (Some e, s') \<Rightarrow> (Some e, s')
      | (None, s') \<Rightarrow> copy_all tmp target force ps s')"

text \<open>Lines 87 to 134, the body of \<^verbatim>\<open>try\<close>: the three runs of the client, then the loop.
  The arguments of \<^verbatim>\<open>git clone\<close> that come from the manifest are the branch and the URL
  (a string whatever the repository value is).  The loop reads the entries that
  \<^verbatim>\<open>git sparse-checkout set\<close> was given, so each of them is a string when the loop starts.\<close>

definition nul_in_url :: "yaml \<Rightarrow> bool" where
  "nul_in_url rhiza_repo = (case rhiza_repo of YStr r \<Rightarrow> CHR 0x00 \<in> set r | _ \<Rightarrow> False)"

definition try_body ::
  "env \<Rightarrow> path \<Rightarrow> bool \<Rightarrow> yaml \<Rightarrow> yaml \<Rightarrow> yaml list \<Rightarrow> state \<Rightarrow> exc option \<times> state" where
  "try_body env target force rhiza_repo rhiza_branch include_paths s =
     (case rhiza_branch of
        YStr b \<Rightarrow>
          (if CHR 0x00 \<in> set b \<or> nul_in_url rhiza_repo then (Some ValueError, s)
           else
             (let s1 = called (Clone rhiza_repo b) s in
              case git_clone env rhiza_repo b of
                None \<Rightarrow> (Some CalledProcessError, s1)
              | Some c1 \<Rightarrow>
                  (let s2 = called Sparse_init
                              (s1\<lparr>fs := put (tmp_dir env) (Some (Dir c1)) (fs s1)\<rparr>) in
                   case git_sparse_init env c1 of
                     None \<Rightarrow> (Some CalledProcessError, s2)
                   | Some c2 \<Rightarrow>
                       (let s3 = s2\<lparr>fs := put (tmp_dir env) (Some (Dir c2)) (fs s2)\<rparr> in
                        case argv include_paths of
                          Inl e \<Rightarrow> (Some e, s3)
                        | Inr ps \<Rightarrow>
                            (let s4 = called (Sparse_set ps) s3 in
                             case git_sparse_set env ps c2 of
                               None \<Rightarrow> (Some CalledProcessError, s4)
                             | Some c3 \<Rightarrow>
                                 copy_all (tmp_dir env) target force ps
                                   (s4\<lparr>fs := put (tmp_dir env) (Some (Dir c3)) (fs s4)\<rparr>))))))
      | _ \<Rightarrow> (Some TypeError, s))"

text \<open>Lines 83 to 152: \<^verbatim>\<open>mkdtemp\<close>, then \<^verbatim>\<open>try\<close> ... \<^verbatim>\<open>finally: shutil.rmtree(tmp_dir)\<close>.
  An exception of the \<^verbatim>\<open>finally\<close> clause replaces the one of the body.\<close>

definition materialize ::
  "env \<Rightarrow> path \<Rightarrow> bool \<Rightarrow> yaml \<Rightarrow> yaml \<Rightarrow> yaml list \<Rightarrow> state \<Rightarrow> exc option \<times> state" where
  "materialize env target force rhiza_repo rhiza_branch include_paths s =
     (case mkdtemp env (fs s) of
        Inl e \<Rightarrow> (Some e, s)
      | Inr f \<Rightarrow>
          (let s1 = emit (Info_cloning rhiza_repo rhiza_branch)
                      (called (Mkdtemp (tmp_dir env)) (s\<lparr>fs := f\<rparr>)) in
           case try_body env target force rhiza_repo rhiza_branch include_paths s1 of
             (r, s2) \<Rightarrow>
               (case rmtree (tmp_dir env) (fs s2) of
                  (Some e, f') \<Rightarrow> (Some e, s2\<lparr>fs := f'\<rparr>)
                | (None, f') \<Rightarrow>
                    (case r of
                       Some e \<Rightarrow> (Some e, s2\<lparr>fs := f'\<rparr>)
                     | None \<Rightarrow>
                         (None, emit Info_next_steps
                                  (emit Success_materialized (s2\<lparr>fs := f'\<rparr>)))))))"

text \<open>Lines 68 to 78: the three fields of the manifest and the check of \<^verbatim>\<open>include\<close>.\<close>

definition read_config ::
  "env \<Rightarrow> path \<Rightarrow> string \<Rightarrow> bool \<Rightarrow> yaml \<Rightarrow> state \<Rightarrow> exc option \<times> state" where
  "read_config env target branch force config s =
     (case config of
        YMap kvs \<Rightarrow>
          (let rhiza_repo = dict_get kvs ''template-repository'' YNull;
               rhiza_branch = dict_get kvs ''template-branch'' (YStr branch);
               include_paths = dict_get kvs ''include'' (YSeq [])
           in if \<not> truthy include_paths then (Some (SystemExit 1), emit Error_no_include_paths s)
              else
                (case py_iter include_paths of
                   None \<Rightarrow> (Some TypeError, emit Info_include_paths s)
                 | Some items \<Rightarrow>
                     materialize env target force rhiza_repo rhiza_branch items
                       (s\<lparr>logged := logged s @ Info_include_paths # map Info_include_item items\<rparr>)))
      | _ \<Rightarrow> (Some AttributeError, s))"

text \<open>The whole function.  \<open>target\<close> is the path after \<^verbatim>\<open>target.resolve()\<close>.\<close>

definition inject :: "env \<Rightarrow> path \<Rightarrow> string \<Rightarrow> bool \<Rightarrow> state \<Rightarrow> exc option \<times> state" where
  "inject env target branch force s =
     (if \<not> is_dir (fs s) (target @ [''.git''])
      then (Some (SystemExit 1), emit (Error_not_a_git_repository target) s)
      else
        (case ensure_template env target branch
                (emit (Info_rhiza_branch branch) (emit (Info_target_repository target) s)) of
           (Some e, s1) \<Rightarrow> (Some e, s1)
         | (None, s1) \<Rightarrow>
             (case load_template env target (fs s1) of
                Inl e \<Rightarrow> (Some e, s1)
              | Inr config \<Rightarrow> read_config env target branch force config s1)))"

section \<open>Notions used in the statements\<close>

text \<open>What is at a path: nothing, a directory, or a regular file with its content.\<close>

datatype kind = Missing | Directory | Regular string

definition stat :: "node \<Rightarrow> path \<Rightarrow> kind" where
  "stat f p =
     (case lookup f p of
        None \<Rightarrow> Missing
      | Some (Dir m) \<Rightarrow> Directory
      | Some (File c) \<Rightarrow> Regular c)"

text \<open>The entries the copy loop goes through when the manifest has the text \<open>c\<close>
  (lines 66, 70 and 105), and the entries of the scratch directory after the three runs of
  the client (lines 87 to 105).\<close>

definition include_entries :: "env \<Rightarrow> string \<Rightarrow> string list" where
  "include_entries env c =
     (case yaml_safe_load env c of
        Some (YMap kvs) \<Rightarrow>
          (case py_iter (dict_get kvs ''include'' (YSeq [])) of
             Some items \<Rightarrow> (case argv items of Inr ps \<Rightarrow> ps | Inl e \<Rightarrow> [])
           | None \<Rightarrow> [])
      | _ \<Rightarrow> [])"

definition checkout :: "env \<Rightarrow> yaml \<Rightarrow> string \<Rightarrow> string list \<Rightarrow> entries option" where
  "checkout env rhiza_repo b ps =
     (case git_clone env rhiza_repo b of
        None \<Rightarrow> None
      | Some c1 \<Rightarrow>
          (case git_sparse_init env c1 of
             None \<Rightarrow> None
           | Some c2 \<Rightarrow> git_sparse_set env ps c2))"

section \<open>A small world for concrete runs\<close>

text \<open>
  The scratch directory is \<^verbatim>\<open>/tmp/scratch\<close>, the target is \<^verbatim>\<open>/repo\<close>.  The template
  repository holds a \<^verbatim>\<open>.github\<close> directory with a manifest of its own, a \<^verbatim>\<open>Makefile\<close>,
  and two directories \<^verbatim>\<open>a\<close> and \<^verbatim>\<open>x\<close>.  The YAML library is a table of the manifests
  that occur; the client always succeeds and checks out the whole repository, but it cannot
  clone when the manifest names no repository.
\<close>

definition default_text :: string where
  "default_text = ''{include: [.github, /.editorconfig, /.gitignore, /.pre-commit-config.yaml, /Makefile, /pytest.ini], template-branch: main, template-repository: jebel-quant/rhiza}''"

definition manifest_text :: "string \<Rightarrow> string" where
  "manifest_text entries = ''{template-repository: o/t, include: ['' @ entries @ '']}''"

definition manifest_value :: "string list \<Rightarrow> yaml" where
  "manifest_value entries =
     YMap [(YStr ''template-repository'', YStr ''o/t''), (YStr ''include'', YSeq (map YStr entries))]"

definition upstream :: entries where
  "upstream =
     [''.git'' \<mapsto> Dir Map.empty,
      ''.github'' \<mapsto> Dir [''template.yml'' \<mapsto> File (manifest_text ''.github, Makefile''),
                            ''ci.yml'' \<mapsto> File ''ci''],
      ''Makefile'' \<mapsto> File ''new'',
      ''a'' \<mapsto> Dir [''new'' \<mapsto> File ''n''],
      ''x'' \<mapsto> Dir [''y'' \<mapsto> File ''y'']]"

definition manifests :: "(string \<times> yaml) list" where
  "manifests =
     [(manifest_text [], manifest_value []),
      (manifest_text ''a, a/new'', manifest_value [''a'', ''a/new'']),
      (manifest_text ''x/y, a'', manifest_value [''x/y'', ''a'']),
      (manifest_text ''.github'', manifest_value [''.github'']),
      (manifest_text ''.github, Makefile'', manifest_value [''.github'', ''Makefile'']),
      (manifest_text ''Makefile, a'', manifest_value [''Makefile'', ''a'']),
      (manifest_text ''missing, gone/too'', manifest_value [''missing'', ''gone/too'']),
      (manifest_text ''/data'', manifest_value [''/data'']),
      (''include: [a]'', YMap [(YStr ''include'', YSeq [YStr ''a''])]),
      (default_text, template_content ''main'')]"

definition env0 :: env where
  "env0 =
     \<lparr>yaml_dump = (\<lambda>v. default_text),
      yaml_safe_load = map_of manifests,
      tmp_dir = [''tmp'', ''scratch''],
      git_clone = (\<lambda>repo b. case repo of YStr r \<Rightarrow> Some upstream | _ \<Rightarrow> None),
      git_sparse_init = Some,
      git_sparse_set = (\<lambda>ps c. Some c)\<rparr>"

text \<open>A file \<^verbatim>\<open>/data\<close> on the host, and a target with the given manifest text, a
  directory \<^verbatim>\<open>a\<close>, a regular file \<^verbatim>\<open>x\<close> and a \<^verbatim>\<open>Makefile\<close>; and a target that is only
  a repository.\<close>

definition repo_with :: "string \<Rightarrow> node" where
  "repo_with manifest =
     Dir [''tmp'' \<mapsto> Dir Map.empty,
          ''data'' \<mapsto> File ''host'',
          ''repo'' \<mapsto> Dir [''.git'' \<mapsto> Dir Map.empty,
                            ''.github'' \<mapsto> Dir [''template.yml'' \<mapsto> File manifest],
                            ''a'' \<mapsto> Dir [''old'' \<mapsto> File ''o''],
                            ''x'' \<mapsto> File ''file'',
                            ''Makefile'' \<mapsto> File ''old'']]"

definition bare_repo :: node where
  "bare_repo = Dir [''tmp'' \<mapsto> Dir Map.empty, ''repo'' \<mapsto> Dir [''.git'' \<mapsto> Dir Map.empty]]"

text \<open>A repository whose \<^verbatim>\<open>.github\<close> is a regular file.\<close>

definition blocked_repo :: node where
  "blocked_repo =
     Dir [''tmp'' \<mapsto> Dir Map.empty,
          ''repo'' \<mapsto> Dir [''.git'' \<mapsto> Dir Map.empty, ''.github'' \<mapsto> File ''notes'']]"


section \<open>Facts about the file system\<close>

lemma lookup_append:
  "lookup f (p @ q) = (case lookup f p of None \<Rightarrow> None | Some n \<Rightarrow> lookup n q)"
proof (induction p arbitrary: f)
  case Nil
  show ?case by simp
next
  case (Cons x xs)
  show ?case by (cases f) (simp_all add: Cons.IH split: option.splits)
qed

lemma lookup_put_above:
  "r \<noteq> [] \<Longrightarrow> lookup (put (q @ r) v f) q = map_option (put r v) (lookup f q)"
proof (induction q arbitrary: f)
  case Nil
  then show ?case by simp
next
  case (Cons x xs)
  then show ?case by (cases f) (simp_all split: option.splits)
qed

lemma lookup_put_parallel:
  "p \<parallel> q \<Longrightarrow> lookup (put p v f) q = lookup f q"
proof (induction p arbitrary: q f)
  case Nil
  then show ?case by simp
next
  case (Cons x xs)
  show ?case
  proof (cases q)
    case Nil
    with Cons.prems show ?thesis by simp
  next
    case (Cons y ys)
    note q = this
    show ?thesis
    proof (cases f)
      case (File c)
      then show ?thesis by simp
    next
      case (Dir m)
      show ?thesis
      proof (cases "x = y")
        case False
        then show ?thesis using Dir q by (simp split: option.splits)
      next
        case True
        with Cons.prems q have par: "xs \<parallel> ys" by (simp add: parallel_def)
        then have "xs \<noteq> []" by auto
        then show ?thesis using Dir q True Cons.IH[OF par] by (simp split: option.splits)
      qed
    qed
  qed
qed

lemma lookup_put_removed:
  "p \<noteq> [] \<Longrightarrow> lookup (put p None f) (p @ q) = None"
proof (induction p arbitrary: f)
  case Nil
  then show ?case by simp
next
  case (Cons x xs)
  show ?case
  proof (cases f)
    case (File c)
    then show ?thesis by simp
  next
    case (Dir m)
    show ?thesis
    proof (cases "xs = []")
      case True
      then show ?thesis using Dir by simp
    next
      case False
      then show ?thesis using Dir Cons.IH[OF False] by (simp split: option.splits)
    qed
  qed
qed

lemma lookup_put_written:
  "p \<noteq> [] \<Longrightarrow> is_dir f (butlast p) \<Longrightarrow> lookup (put p (Some n) f) (p @ q) = lookup n q"
proof (induction p arbitrary: f)
  case Nil
  then show ?case by simp
next
  case (Cons x xs)
  show ?case
  proof (cases f)
    case (File c)
    with Cons.prems show ?thesis by (cases xs) (simp_all add: is_dir_def)
  next
    case (Dir m)
    show ?thesis
    proof (cases "xs = []")
      case True
      then show ?thesis using Dir by simp
    next
      case False
      with Cons.prems Dir obtain k where k: "m x = Some k" and d: "is_dir k (butlast xs)"
        by (auto simp: is_dir_def split: option.splits)
      show ?thesis using Dir False k Cons.IH[OF False d] by simp
    qed
  qed
qed

lemma mkdir_parents_existing:
  "is_dir f p \<Longrightarrow> mkdir_parents p f = Inr f"
proof (induction p arbitrary: f)
  case Nil
  then show ?case by (cases f) (simp_all add: is_dir_def)
next
  case (Cons x xs)
  show ?case
  proof (cases f)
    case (File c)
    with Cons.prems show ?thesis by (simp add: is_dir_def)
  next
    case (Dir m)
    with Cons.prems obtain k where k: "m x = Some k" and d: "is_dir k xs"
      by (auto simp: is_dir_def split: option.splits)
    have "m(x \<mapsto> k) = m" using k by (rule map_upd_triv)
    then show ?thesis using Dir k Cons.IH[OF d] by simp
  qed
qed

lemma is_dir_new_dirs: "is_dir (new_dirs p) p"
  by (induction p) (simp_all add: is_dir_def)

lemma lookup_new_dirs: "\<not> prefix q p \<Longrightarrow> lookup (new_dirs p) q = None"
proof (induction p arbitrary: q)
  case Nil
  then show ?case by (cases q) simp_all
next
  case (Cons x xs)
  then show ?case by (cases q) simp_all
qed

lemma mkdir_parents_is_dir:
  "mkdir_parents p f = Inr f' \<Longrightarrow> is_dir f' p"
proof (induction p arbitrary: f f')
  case Nil
  then show ?case by (cases f) (auto simp: is_dir_def)
next
  case (Cons x xs)
  show ?case
  proof (cases f)
    case (File c)
    with Cons.prems show ?thesis by simp
  next
    case (Dir m)
    show ?thesis
    proof (cases "m x")
      case None
      with Cons.prems Dir have "f' = Dir (m(x \<mapsto> new_dirs xs))" by simp
      then show ?thesis using is_dir_new_dirs[of xs] by (simp add: is_dir_def)
    next
      case (Some k)
      with Cons.prems Dir obtain k' where k': "mkdir_parents xs k = Inr k'"
        and f': "f' = Dir (m(x \<mapsto> k'))" by (auto split: sum.splits)
      from Cons.IH[OF k'] show ?thesis using f' by (simp add: is_dir_def)
    qed
  qed
qed

lemma mkdir_parents_elsewhere:
  "mkdir_parents p f = Inr f' \<Longrightarrow> \<not> prefix q p \<Longrightarrow> lookup f' q = lookup f q"
proof (induction p arbitrary: f f' q)
  case Nil
  then show ?case by (cases f) auto
next
  case (Cons x xs)
  show ?case
  proof (cases f)
    case (File c)
    with Cons.prems show ?thesis by simp
  next
    case (Dir m)
    from Cons.prems(2) obtain y ys where q: "q = y # ys" by (cases q) auto
    show ?thesis
    proof (cases "m x")
      case None
      with Cons.prems Dir have f': "f' = Dir (m(x \<mapsto> new_dirs xs))" by simp
      show ?thesis
      proof (cases "x = y")
        case True
        with Cons.prems(2) q have "\<not> prefix ys xs" by simp
        then show ?thesis using f' Dir q True None by (simp add: lookup_new_dirs)
      next
        case False
        then show ?thesis using f' Dir q by simp
      qed
    next
      case (Some k)
      with Cons.prems Dir obtain k' where k': "mkdir_parents xs k = Inr k'"
        and f': "f' = Dir (m(x \<mapsto> k'))" by (auto split: sum.splits)
      show ?thesis
      proof (cases "x = y")
        case True
        with Cons.prems(2) q have "\<not> prefix ys xs" by simp
        from Cons.IH[OF k' this] show ?thesis using f' Dir q True Some by simp
      next
        case False
        then show ?thesis using f' Dir q by simp
      qed
    qed
  qed
qed

lemma mkdir_parents_above:
  "mkdir_parents p f = Inr f' \<Longrightarrow> prefix q p \<Longrightarrow> is_dir f' q"
proof (induction p arbitrary: f f' q)
  case Nil
  then show ?case by (cases f) (auto simp: is_dir_def)
next
  case (Cons x xs)
  show ?case
  proof (cases f)
    case (File c)
    with Cons.prems show ?thesis by simp
  next
    case (Dir m)
    show ?thesis
    proof (cases q)
      case Nil
      with Cons.prems Dir show ?thesis by (auto simp: is_dir_def split: option.splits sum.splits)
    next
      case (Cons y ys)
      with Cons.prems(2) have xy: "y = x" and pre: "prefix ys xs" by simp_all
      show ?thesis
      proof (cases "m x")
        case None
        with Cons.prems Dir have f': "f' = Dir (m(x \<mapsto> new_dirs xs))" by simp
        have "mkdir_parents xs (new_dirs xs) = Inr (new_dirs xs)"
          by (rule mkdir_parents_existing[OF is_dir_new_dirs])
        from Cons.IH[OF this pre] show ?thesis using f' Cons xy by (simp add: is_dir_def)
      next
        case (Some k)
        with Cons.prems Dir obtain k' where k': "mkdir_parents xs k = Inr k'"
          and f': "f' = Dir (m(x \<mapsto> k'))" by (auto split: sum.splits)
        from Cons.IH[OF k' pre] show ?thesis using f' Cons xy by (simp add: is_dir_def)
      qed
    qed
  qed
qed

lemma butlast_template_file [simp]: "butlast (template_file target) = target @ [''.github'']"
  by (simp add: template_file_def butlast_append)

lemma template_file_append: "template_file target = (target @ [''.github'']) @ [''template.yml'']"
  by (simp add: template_file_def)

lemma parent_of_existing:
  "lookup f (p @ [x]) = Some n \<Longrightarrow> is_dir f p"
  by (cases "lookup f p") (auto simp: lookup_append is_dir_def split: node.splits)

lemma github_of_manifest:
  "lookup f (template_file target) = Some n \<Longrightarrow> is_dir f (target @ [''.github''])"
  unfolding template_file_append by (rule parent_of_existing)

lemma ensure_template_existing:
  assumes "lookup (fs s) (template_file target) = Some n"
  shows "ensure_template env target branch s = (None, emit Info_using_existing s)"
  using assms mkdir_parents_existing[OF github_of_manifest[OF assms]]
  by (simp add: ensure_template_def path_exists_def)

section \<open>Facts about one round of the loop\<close>

lemma copy_either:
  "(if is_dir f src then copytree src dst f else copy2 src dst f)
     = (case lookup f src of None \<Rightarrow> Inl FileNotFoundError | Some n \<Rightarrow> Inr (put dst (Some n) f))"
  by (simp add: is_dir_def copytree_def copy2_def split: option.splits node.splits)

lemma remove_dst_alt:
  "remove_dst dst f =
     (if path_exists f dst
      then (if is_dir f dst \<and> dst = [] then (Some OSError, Dir Map.empty)
            else (None, put dst None f))
      else (None, f))"
  by (auto simp: remove_dst_def rmtree_def unlink_def path_exists_def is_dir_def
           split: option.splits node.splits)

lemma copy_path_alt:
  "copy_path tmp target force p s =
     (if \<not> path_exists (fs s) (joinpath tmp p) then (None, emit (Warning_not_found p) s)
      else if path_exists (fs s) (joinpath target p) \<and> \<not> force
        then (None, emit (Warning_already_exists p) s)
      else if path_exists (fs s) (joinpath target p) \<and> is_dir (fs s) (joinpath target p)
              \<and> joinpath target p = []
        then (Some OSError, s\<lparr>fs := Dir Map.empty\<rparr>)
      else
        (let f1 = (if path_exists (fs s) (joinpath target p)
                   then put (joinpath target p) None (fs s) else fs s) in
         case mkdir_parents (butlast (joinpath target p)) f1 of
           Inl e \<Rightarrow> (Some e, s\<lparr>fs := f1\<rparr>)
         | Inr f2 \<Rightarrow>
             (case lookup f2 (joinpath tmp p) of
                None \<Rightarrow> (Some FileNotFoundError, s\<lparr>fs := f2\<rparr>)
              | Some n \<Rightarrow>
                  (None, emit (Success_add p) (s\<lparr>fs := put (joinpath target p) (Some n) f2\<rparr>)))))"
proof -
  define src where "src = joinpath tmp p"
  define dst where "dst = joinpath target p"
  consider (a) "\<not> path_exists (fs s) src"
    | (b) "path_exists (fs s) src" "path_exists (fs s) dst" "\<not> force"
    | (c) "path_exists (fs s) src" "path_exists (fs s) dst" "force" "is_dir (fs s) dst" "dst = []"
    | (d) "path_exists (fs s) src" "path_exists (fs s) dst" "force" "\<not> (is_dir (fs s) dst \<and> dst = [])"
    | (e) "path_exists (fs s) src" "\<not> path_exists (fs s) dst"
    by blast
  then have "copy_path tmp target force p s =
     (if \<not> path_exists (fs s) src then (None, emit (Warning_not_found p) s)
      else if path_exists (fs s) dst \<and> \<not> force
        then (None, emit (Warning_already_exists p) s)
      else if path_exists (fs s) dst \<and> is_dir (fs s) dst \<and> dst = []
        then (Some OSError, s\<lparr>fs := Dir Map.empty\<rparr>)
      else
        (let f1 = (if path_exists (fs s) dst then put dst None (fs s) else fs s) in
         case mkdir_parents (butlast dst) f1 of
           Inl e \<Rightarrow> (Some e, s\<lparr>fs := f1\<rparr>)
         | Inr f2 \<Rightarrow>
             (case lookup f2 src of
                None \<Rightarrow> (Some FileNotFoundError, s\<lparr>fs := f2\<rparr>)
              | Some n \<Rightarrow>
                  (None, emit (Success_add p) (s\<lparr>fs := put dst (Some n) f2\<rparr>)))))"
  proof cases
    case a
    then show ?thesis by (simp add: copy_path_def src_def dst_def)
  next
    case b
    then show ?thesis by (simp add: copy_path_def src_def dst_def)
  next
    case c
    then have "remove_dst dst (fs s) = (Some OSError, Dir Map.empty)"
      by (simp add: remove_dst_alt)
    then show ?thesis
      using c unfolding copy_path_def src_def[symmetric] dst_def[symmetric] Let_def
      by simp
  next
    case d
    then have "remove_dst dst (fs s) = (None, put dst None (fs s))"
      by (auto simp: remove_dst_alt)
    then show ?thesis
      using d unfolding copy_path_def src_def[symmetric] dst_def[symmetric] Let_def copy_either
      by (auto split: sum.splits option.splits)
  next
    case e
    then have "remove_dst dst (fs s) = (None, fs s)"
      by (simp add: remove_dst_alt)
    then show ?thesis
      using e unfolding copy_path_def src_def[symmetric] dst_def[symmetric] Let_def copy_either
      by (auto split: sum.splits option.splits)
  qed
  then show ?thesis unfolding src_def dst_def .
qed

lemma put_dir: "\<exists>m'. put p v (Dir m) = Dir m'"
  by (cases p) (auto split: option.splits)

lemma is_dir_put_dir: "is_dir n [] \<Longrightarrow> is_dir (put p v n) []"
  by (cases n; cases p) (auto simp: is_dir_def split: option.splits)

lemma path_exists_prefix:
  "path_exists f (p @ q) \<Longrightarrow> path_exists f p"
  by (auto simp: path_exists_def lookup_append split: option.splits)

lemma is_dir_strict_prefix:
  "path_exists f (p @ q) \<Longrightarrow> q \<noteq> [] \<Longrightarrow> is_dir f p"
  by (cases q) (auto simp: path_exists_def is_dir_def lookup_append split: option.splits node.splits)

lemma is_dir_put_not_below:
  assumes "is_dir f q" "\<not> prefix p q"
  shows "is_dir (put p v f) q"
proof (cases "prefix q p")
  case True
  then obtain r where r: "p = q @ r" by (auto simp: prefix_def)
  with assms(2) have "r \<noteq> []" by auto
  then have "lookup (put p v f) q = map_option (put r v) (lookup f q)"
    unfolding r by (rule lookup_put_above)
  moreover from assms(1) obtain m where "lookup f q = Some (Dir m)"
    by (auto simp: is_dir_def split: option.splits node.splits)
  ultimately show ?thesis using put_dir[of r v m] by (auto simp: is_dir_def)
next
  case False
  with assms(2) have "p \<parallel> q" by (simp add: parallel_def)
  then show ?thesis using assms(1) by (simp add: is_dir_def lookup_put_parallel)
qed

lemma removed_below:
  "p \<noteq> [] \<Longrightarrow> prefix p q \<Longrightarrow> lookup (put p None f) q = None"
  by (auto simp: prefix_def lookup_put_removed)

lemma mkdir_parents_keeps_dir:
  "mkdir_parents p f = Inr f' \<Longrightarrow> is_dir f q \<Longrightarrow> is_dir f' q"
proof (cases "prefix q p")
  case True
  assume "mkdir_parents p f = Inr f'"
  then show ?thesis using True by (rule mkdir_parents_above)
next
  case False
  assume "mkdir_parents p f = Inr f'" "is_dir f q"
  then show ?thesis using False by (simp add: is_dir_def mkdir_parents_elsewhere)
qed

lemma joinpath_cases:
  obtains (relative) "\<not> is_absolute p" "joinpath tmp p = tmp @ parts p"
                     "joinpath target p = target @ parts p"
        | (absolute) "is_absolute p" "joinpath tmp p = parts p" "joinpath target p = parts p"
  by (cases "is_absolute p") (simp_all add: joinpath_def)

lemma butlast_snoc_self: "p \<noteq> [] \<Longrightarrow> butlast p @ [last p] = p"
  by simp

lemma parent_is_dir: "path_exists f p \<Longrightarrow> p \<noteq> [] \<Longrightarrow> is_dir f (butlast p)"
  using is_dir_strict_prefix[of f "butlast p" "[last p]"] by simp

lemma not_prefix_butlast: "p \<noteq> [] \<Longrightarrow> \<not> prefix p (butlast p)"
proof
  assume ne: "p \<noteq> []" and pre: "prefix p (butlast p)"
  have "length (butlast p) = length p - 1" by (rule length_butlast)
  moreover have "0 < length p" using ne by simp
  ultimately show False using prefix_length_le[OF pre] by linarith
qed

lemma mkdir_after_remove:
  assumes "path_exists f dst" "dst \<noteq> []"
  shows "mkdir_parents (butlast dst) (put dst None f) = Inr (put dst None f)"
proof -
  have "is_dir f (butlast dst)" using assms by (rule parent_is_dir)
  then have "is_dir (put dst None f) (butlast dst)"
    using not_prefix_butlast[OF assms(2)] by (rule is_dir_put_not_below)
  then show ?thesis by (rule mkdir_parents_existing)
qed

lemma copy_path_cases [consumes 1, case_names not_found skipped root mkdir_failed src_gone added]:
  assumes "copy_path tmp target force p s = (r, s')"
  obtains
    (not_found) "\<not> path_exists (fs s) (joinpath tmp p)" "r = None"
                "s' = emit (Warning_not_found p) s"
  | (skipped) "path_exists (fs s) (joinpath tmp p)" "path_exists (fs s) (joinpath target p)"
              "\<not> force" "r = None" "s' = emit (Warning_already_exists p) s"
  | (root) "path_exists (fs s) (joinpath tmp p)" "force" "joinpath target p = []"
           "is_dir (fs s) []" "r = Some OSError" "s' = s\<lparr>fs := Dir Map.empty\<rparr>"
  | (mkdir_failed) f1 e where "path_exists (fs s) (joinpath tmp p)"
      "path_exists (fs s) (joinpath target p) \<Longrightarrow> force"
      "f1 = (if path_exists (fs s) (joinpath target p)
             then put (joinpath target p) None (fs s) else fs s)"
      "mkdir_parents (butlast (joinpath target p)) f1 = Inl e" "r = Some e" "s' = s\<lparr>fs := f1\<rparr>"
  | (src_gone) f1 f2 where "path_exists (fs s) (joinpath tmp p)"
      "path_exists (fs s) (joinpath target p) \<Longrightarrow> force"
      "f1 = (if path_exists (fs s) (joinpath target p)
             then put (joinpath target p) None (fs s) else fs s)"
      "mkdir_parents (butlast (joinpath target p)) f1 = Inr f2"
      "lookup f2 (joinpath tmp p) = None" "r = Some FileNotFoundError" "s' = s\<lparr>fs := f2\<rparr>"
  | (added) f1 f2 n where "path_exists (fs s) (joinpath tmp p)"
      "path_exists (fs s) (joinpath target p) \<Longrightarrow> force"
      "f1 = (if path_exists (fs s) (joinpath target p)
             then put (joinpath target p) None (fs s) else fs s)"
      "mkdir_parents (butlast (joinpath target p)) f1 = Inr f2"
      "lookup f2 (joinpath tmp p) = Some n" "r = None"
      "s' = emit (Success_add p) (s\<lparr>fs := put (joinpath target p) (Some n) f2\<rparr>)"
proof -
  define src where "src = joinpath tmp p"
  define dst where "dst = joinpath target p"
  define f1 where "f1 = (if path_exists (fs s) dst then put dst None (fs s) else fs s)"
  note alt = assms[unfolded copy_path_alt, folded src_def dst_def, unfolded Let_def, folded f1_def]
  show thesis
  proof (cases "path_exists (fs s) src")
    case False
    with alt show thesis using not_found by (simp add: src_def)
  next
    case src: True
    show thesis
    proof (cases "path_exists (fs s) dst \<and> \<not> force")
      case True
      with alt src show thesis using skipped by (simp add: src_def dst_def)
    next
      case nf: False
      show thesis
      proof (cases "path_exists (fs s) dst \<and> is_dir (fs s) dst \<and> dst = []")
        case True
        with alt src nf have "r = Some OSError" "s' = s\<lparr>fs := Dir Map.empty\<rparr>" by auto
        moreover from True nf have "force" "joinpath target p = []" "is_dir (fs s) []"
          by (auto simp: dst_def)
        ultimately show thesis using root src by (simp add: src_def)
      next
        case nr: False
        have frc: "path_exists (fs s) (joinpath target p) \<Longrightarrow> force"
          using nf by (auto simp: dst_def)
        have f1: "f1 = (if path_exists (fs s) (joinpath target p)
             then put (joinpath target p) None (fs s) else fs s)"
          by (simp add: f1_def dst_def)
        from alt src nf nr
        have res: "(r, s') = (case mkdir_parents (butlast dst) f1 of
             Inl e \<Rightarrow> (Some e, s\<lparr>fs := f1\<rparr>)
           | Inr f2 \<Rightarrow>
               (case lookup f2 src of
                  None \<Rightarrow> (Some FileNotFoundError, s\<lparr>fs := f2\<rparr>)
                | Some n \<Rightarrow> (None, emit (Success_add p) (s\<lparr>fs := put dst (Some n) f2\<rparr>))))"
          by (simp split: if_splits)
        show thesis
        proof (cases "mkdir_parents (butlast dst) f1")
          case (Inl e)
          with res have "r = Some e" "s' = s\<lparr>fs := f1\<rparr>" by simp_all
          then show thesis using mkdir_failed[OF _ frc f1] src Inl by (simp add: src_def dst_def)
        next
          case (Inr f2)
          show thesis
          proof (cases "lookup f2 src")
            case None
            with res Inr have "r = Some FileNotFoundError" "s' = s\<lparr>fs := f2\<rparr>" by simp_all
            then show thesis using src_gone[OF _ frc f1] src Inr None
              by (simp add: src_def dst_def)
          next
            case (Some n)
            with res Inr have "r = None"
              "s' = emit (Success_add p) (s\<lparr>fs := put dst (Some n) f2\<rparr>)" by simp_all
            then show thesis using added[OF _ frc f1] src Inr Some
              by (simp add: src_def dst_def)
          qed
        qed
      qed
    qed
  qed
qed

section \<open>The scratch directory during the loop\<close>

lemma gone_cases: "is_dir f p \<or> \<not> path_exists f p \<longleftrightarrow> (\<forall>c. lookup f p \<noteq> Some (File c))"
  by (auto simp: is_dir_def path_exists_def split: option.splits node.splits)

lemma removed_dir_or_gone:
  assumes "is_dir f tmp"
  shows "is_dir (put dst None f) tmp \<or> \<not> path_exists (put dst None f) tmp"
proof (cases "prefix dst tmp \<and> dst \<noteq> []")
  case True
  then have "lookup (put dst None f) tmp = None" by (simp add: removed_below)
  then show ?thesis by (simp add: path_exists_def)
next
  case False
  show ?thesis
  proof (cases "dst = []")
    case True
    with assms show ?thesis by simp
  next
    case ne: False
    with False have "\<not> prefix dst tmp" by simp
    with assms show ?thesis by (simp add: is_dir_put_not_below)
  qed
qed

lemma mkdir_dir_or_gone:
  assumes "mkdir_parents p f = Inr f'" "is_dir f tmp \<or> \<not> path_exists f tmp"
  shows "is_dir f' tmp \<or> \<not> path_exists f' tmp"
proof (cases "prefix tmp p")
  case True
  with assms(1) show ?thesis by (simp add: mkdir_parents_above)
next
  case False
  with assms(1) have "lookup f' tmp = lookup f tmp" by (rule mkdir_parents_elsewhere)
  with assms(2) show ?thesis by (simp add: is_dir_def path_exists_def)
qed

lemma source_below_removed:
  assumes "prefix dst tmp" "dst \<noteq> []" "dst = joinpath target p"
  shows "lookup (put dst None f) (joinpath tmp p) = None"
proof (cases p rule: joinpath_cases[where tmp = tmp and target = target])
  case relative
  from assms(1) have "prefix dst (tmp @ parts p)" by (rule prefix_prefix)
  with relative assms(2) show ?thesis by (simp add: removed_below)
next
  case absolute
  with assms show ?thesis by (simp add: removed_below)
qed

lemma copy_path_scratch:
  assumes step: "copy_path tmp target force p s = (r, s')"
    and dir: "is_dir (fs s) tmp" and ne: "tmp \<noteq> []"
  shows "(r = None \<longrightarrow> is_dir (fs s') tmp) \<and> (is_dir (fs s') tmp \<or> \<not> path_exists (fs s') tmp)"
  using step
proof (cases rule: copy_path_cases)
  case not_found
  with dir show ?thesis by (simp add: emit_def)
next
  case skipped
  with dir show ?thesis by (simp add: emit_def)
next
  case root
  have "lookup (Dir Map.empty) tmp = None" using ne by (cases tmp) simp_all
  with root show ?thesis by (simp add: path_exists_def)
next
  case (mkdir_failed f1 e)
  have "is_dir f1 tmp \<or> \<not> path_exists f1 tmp"
    unfolding mkdir_failed(3) using dir removed_dir_or_gone[OF dir] by simp
  with mkdir_failed show ?thesis by simp
next
  case (src_gone f1 f2)
  have "is_dir f1 tmp \<or> \<not> path_exists f1 tmp"
    unfolding src_gone(3) using dir removed_dir_or_gone[OF dir] by simp
  with src_gone(4) have "is_dir f2 tmp \<or> \<not> path_exists f2 tmp" by (rule mkdir_dir_or_gone)
  with src_gone show ?thesis by simp
next
  case (added f1 f2 n)
  let ?dst = "joinpath target p"
  have "is_dir (put ?dst (Some n) f2) tmp"
  proof (cases "?dst = []")
    case True
    with added(3) have "f1 = fs s" by simp
    with added(4) dir have "is_dir f2 tmp" by (simp add: mkdir_parents_keeps_dir)
    with True show ?thesis by simp
  next
    case dne: False
    have np: "\<not> prefix ?dst tmp \<and> is_dir f2 tmp"
    proof (cases "path_exists (fs s) ?dst")
      case ex: True
      have f1: "f1 = put ?dst None (fs s)" using added(3) ex by simp
      have f2: "f2 = f1" using added(4) mkdir_after_remove[OF ex dne] f1 by simp
      have "\<not> prefix ?dst tmp"
      proof
        assume "prefix ?dst tmp"
        then have "lookup (put ?dst None (fs s)) (joinpath tmp p) = None"
          using dne by (rule source_below_removed) simp
        with added(5) f1 f2 show False by simp
      qed
      moreover from this dir have "is_dir f1 tmp" unfolding f1 by (simp add: is_dir_put_not_below)
      ultimately show ?thesis using f2 by simp
    next
      case nex: False
      then have f1: "f1 = fs s" using added(3) by simp
      have "\<not> prefix ?dst tmp"
      proof
        assume "prefix ?dst tmp"
        then obtain r where "tmp = ?dst @ r" by (auto simp: prefix_def)
        with dir have "path_exists (fs s) (?dst @ r)"
          by (auto simp: is_dir_def path_exists_def split: option.splits)
        then have "path_exists (fs s) ?dst" by (rule path_exists_prefix)
        with nex show False by simp
      qed
      moreover have "is_dir f2 tmp" using added(4) dir unfolding f1 by (rule mkdir_parents_keeps_dir)
      ultimately show ?thesis by simp
    qed
    then show ?thesis by (simp add: is_dir_put_not_below)
  qed
  with added show ?thesis by (simp add: emit_def)
qed

lemma copy_all_scratch:
  assumes "copy_all tmp target force ps s = (r, s')" "is_dir (fs s) tmp" "tmp \<noteq> []"
  shows "(r = None \<longrightarrow> is_dir (fs s') tmp) \<and> (is_dir (fs s') tmp \<or> \<not> path_exists (fs s') tmp)"
  using assms
proof (induction ps arbitrary: s)
  case Nil
  then show ?case by simp
next
  case (Cons p ps)
  obtain r1 s1 where st: "copy_path tmp target force p s = (r1, s1)" by force
  from copy_path_scratch[OF st Cons.prems(2,3)]
  have a: "r1 = None \<longrightarrow> is_dir (fs s1) tmp"
    and b: "is_dir (fs s1) tmp \<or> \<not> path_exists (fs s1) tmp" by simp_all
  show ?case
  proof (cases r1)
    case None
    with Cons.prems(1) st have "copy_all tmp target force ps s1 = (r, s')" by simp
    moreover from a None have "is_dir (fs s1) tmp" by simp
    ultimately show ?thesis using Cons.IH Cons.prems(3) by blast
  next
    case (Some e)
    with Cons.prems(1) st have "r = Some e" "s' = s1" by simp_all
    with b show ?thesis by simp
  qed
qed

lemma copy_path_calls:
  assumes "copy_path tmp target force p s = (r, s')"
  shows "calls s' = calls s"
  using assms by (cases rule: copy_path_cases) (simp_all add: emit_def)

lemma copy_all_calls: "copy_all tmp target force ps s = (r, s') \<Longrightarrow> calls s' = calls s"
proof (induction ps arbitrary: s)
  case Nil
  then show ?case by simp
next
  case (Cons p ps)
  obtain r1 s1 where st: "copy_path tmp target force p s = (r1, s1)" by force
  with Cons show ?case by (cases r1) (auto dest: copy_path_calls)
qed

lemma is_dir_put_scratch:
  assumes "is_dir f t" "t \<noteq> []"
  shows "is_dir (put t (Some (Dir c)) f) t"
proof -
  from assms have "path_exists f t" by (auto simp: is_dir_def path_exists_def split: option.splits)
  then have "is_dir f (butlast t)" using assms(2) by (rule parent_is_dir)
  from lookup_put_written[OF assms(2) this, of "Dir c" "[]"] show ?thesis
    by (simp add: is_dir_def)
qed

lemma try_body_scratch:
  assumes run: "try_body env target force repo br items s = (r, s')"
    and dir: "is_dir (fs s) (tmp_dir env)" and ne: "tmp_dir env \<noteq> []"
  shows "is_dir (fs s') (tmp_dir env) \<or> \<not> path_exists (fs s') (tmp_dir env)"
proof -
  note P = is_dir_put_scratch[OF _ ne]
  show ?thesis
  proof (cases br)
    case (YStr b)
    show ?thesis
    proof (cases "CHR 0x00 \<in> set b \<or> nul_in_url repo")
      case True
      with run YStr dir show ?thesis by (simp add: try_body_def)
    next
      case ok: False
      show ?thesis
      proof (cases "git_clone env repo b")
        case None
        with run YStr ok dir show ?thesis by (auto simp: try_body_def called_def Let_def)
      next
        case c1: (Some c1)
        show ?thesis
        proof (cases "git_sparse_init env c1")
          case None
          with run YStr ok c1 P[OF dir] show ?thesis
            by (auto simp: try_body_def called_def Let_def)
        next
          case c2: (Some c2)
          have d2: "is_dir (put (tmp_dir env) (Some (Dir c2)) (put (tmp_dir env) (Some (Dir c1)) (fs s)))
                      (tmp_dir env)"
            by (intro P dir)
          show ?thesis
          proof (cases "argv items")
            case (Inl e)
            with run YStr ok c1 c2 d2 show ?thesis
              by (auto simp: try_body_def called_def Let_def)
          next
            case (Inr ps)
            show ?thesis
            proof (cases "git_sparse_set env ps c2")
              case None
              with run YStr ok c1 c2 Inr d2 show ?thesis
                by (auto simp: try_body_def called_def Let_def)
            next
              case (Some c3)
              with run YStr ok c1 c2 Inr obtain s4 where
                "copy_all (tmp_dir env) target force ps s4 = (r, s')"
                "fs s4 = put (tmp_dir env) (Some (Dir c3))
                   (put (tmp_dir env) (Some (Dir c2)) (put (tmp_dir env) (Some (Dir c1)) (fs s)))"
                by (auto simp: try_body_def called_def Let_def)
              moreover have "is_dir (fs s4) (tmp_dir env)"
                unfolding calculation(2) by (intro P dir)
              ultimately show ?thesis using copy_all_scratch ne by blast
            qed
          qed
        qed
      qed
    qed
  qed (use run dir in \<open>simp_all add: try_body_def\<close>)
qed

lemma mkdtemp_created:
  assumes "mkdtemp env f = Inr f'"
  shows "tmp_dir env \<noteq> []" "is_dir f' (tmp_dir env)" "\<not> path_exists f (tmp_dir env)"
    "f' = put (tmp_dir env) (Some (Dir Map.empty)) f" "is_dir f (butlast (tmp_dir env))"
proof -
  from assms show ne: "tmp_dir env \<noteq> []" and ab: "\<not> path_exists f (tmp_dir env)"
    and f': "f' = put (tmp_dir env) (Some (Dir Map.empty)) f"
    and par: "is_dir f (butlast (tmp_dir env))"
    by (auto simp: mkdtemp_def split: if_splits)
  from lookup_put_written[OF ne par, of "Dir Map.empty" "[]"] show "is_dir f' (tmp_dir env)"
    by (simp add: f' is_dir_def)
qed

lemma materialize_scratch:
  assumes "mkdtemp env (fs s) = Inr f"
  shows "\<not> path_exists (fs (snd (materialize env target force repo br items s))) (tmp_dir env)"
proof -
  let ?s1 = "emit (Info_cloning repo br) (called (Mkdtemp (tmp_dir env)) (s\<lparr>fs := f\<rparr>))"
  obtain r s2 where tb: "try_body env target force repo br items ?s1 = (r, s2)" by force
  have "is_dir (fs ?s1) (tmp_dir env)"
    using mkdtemp_created(2)[OF assms] by (simp add: emit_def called_def)
  from try_body_scratch[OF tb this mkdtemp_created(1)[OF assms]]
  have d: "is_dir (fs s2) (tmp_dir env) \<or> \<not> path_exists (fs s2) (tmp_dir env)" .
  have "\<not> path_exists (snd (rmtree (tmp_dir env) (fs s2))) (tmp_dir env)"
  proof (cases "is_dir (fs s2) (tmp_dir env)")
    case True
    then obtain m where "lookup (fs s2) (tmp_dir env) = Some (Dir m)"
      by (auto simp: is_dir_def split: option.splits node.splits)
    then show ?thesis
      using lookup_put_removed[OF mkdtemp_created(1)[OF assms], of "fs s2" "[]"]
        mkdtemp_created(1)[OF assms]
      by (simp add: rmtree_def path_exists_def)
  next
    case False
    with d have "lookup (fs s2) (tmp_dir env) = None"
      by (simp add: path_exists_def split: option.splits)
    then show ?thesis by (simp add: rmtree_def path_exists_def)
  qed
  then show ?thesis
    using assms tb
    by (auto simp: materialize_def Let_def emit_def split: prod.splits option.splits)
qed

lemma materialize_no_scratch:
  "mkdtemp env (fs s) = Inl e \<Longrightarrow> materialize env target force repo br items s = (Some e, s)"
  by (simp add: materialize_def)

lemma ensure_template_calls:
  "ensure_template env target branch s = (r, s') \<Longrightarrow> calls s' = calls s"
  by (auto simp: ensure_template_def emit_def split: sum.splits if_splits)

lemma inject_shape:
  "calls (snd (inject env target branch force s)) = calls s
   \<or> (\<exists>repo br items s2. inject env target branch force s
          = materialize env target force repo br items s2 \<and> calls s2 = calls s)"
proof (cases "is_dir (fs s) (target @ [''.git''])")
  case False
  then show ?thesis by (simp add: inject_def emit_def)
next
  case True
  let ?s0 = "emit (Info_rhiza_branch branch) (emit (Info_target_repository target) s)"
  obtain r1 s1 where ens: "ensure_template env target branch ?s0 = (r1, s1)" by force
  then have c1: "calls s1 = calls s" by (auto dest: ensure_template_calls simp: emit_def)
  show ?thesis
  proof (cases r1)
    case (Some e)
    with True ens c1 show ?thesis by (simp add: inject_def)
  next
    case None
    show ?thesis
    proof (cases "load_template env target (fs s1)")
      case (Inl e)
      with True ens None c1 show ?thesis by (simp add: inject_def)
    next
      case (Inr config)
      then have inj: "inject env target branch force s = read_config env target branch force config s1"
        using True ens None by (simp add: inject_def)
      show ?thesis
      proof (cases config)
        case (YMap kvs)
        show ?thesis
        proof (cases "truthy (dict_get kvs ''include'' (YSeq []))")
          case False
          with inj YMap c1 show ?thesis by (simp add: read_config_def emit_def Let_def)
        next
          case t: True
          show ?thesis
          proof (cases "py_iter (dict_get kvs ''include'' (YSeq []))")
            case None
            with inj YMap c1 t show ?thesis by (simp add: read_config_def emit_def Let_def)
          next
            case (Some items)
            with inj YMap t have "inject env target branch force s
              = materialize env target force (dict_get kvs ''template-repository'' YNull)
                  (dict_get kvs ''template-branch'' (YStr branch)) items
                  (s1\<lparr>logged := logged s1 @ Info_include_paths # map Info_include_item items\<rparr>)"
              by (simp add: read_config_def Let_def)
            then show ?thesis using c1 by force
          qed
        qed
      qed (use inj c1 in \<open>simp_all add: read_config_def\<close>)
    qed
  qed
qed

section \<open>From the manifest to the fetch\<close>

lemma inject_loaded:
  assumes "is_dir (fs s) (target @ [''.git''])"
    and "ensure_template env target branch
           (emit (Info_rhiza_branch branch) (emit (Info_target_repository target) s)) = (None, s1)"
    and "load_template env target (fs s1) = Inr (YMap kvs)"
    and "truthy (dict_get kvs ''include'' (YSeq []))"
    and "py_iter (dict_get kvs ''include'' (YSeq [])) = Some items"
  shows "inject env target branch force s
       = materialize env target force (dict_get kvs ''template-repository'' YNull)
           (dict_get kvs ''template-branch'' (YStr branch)) items
           (s1\<lparr>logged := logged s1 @ Info_include_paths # map Info_include_item items\<rparr>)"
  using assms by (simp add: inject_def read_config_def Let_def)

lemma inject_existing_manifest:
  assumes "is_dir (fs s) (target @ [''.git''])"
    and "lookup (fs s) (template_file target) = Some (File c)"
    and "yaml_safe_load env c = Some (YMap kvs)"
    and "truthy (dict_get kvs ''include'' (YSeq []))"
    and "py_iter (dict_get kvs ''include'' (YSeq [])) = Some items"
  shows "inject env target branch force s
       = materialize env target force (dict_get kvs ''template-repository'' YNull)
           (dict_get kvs ''template-branch'' (YStr branch)) items
           (s\<lparr>logged := logged s @ [Info_target_repository target, Info_rhiza_branch branch,
                 Info_using_existing, Info_include_paths] @ map Info_include_item items\<rparr>)"
proof -
  let ?s0 = "emit (Info_rhiza_branch branch) (emit (Info_target_repository target) s)"
  have ens: "ensure_template env target branch ?s0 = (None, emit Info_using_existing ?s0)"
    by (rule ensure_template_existing[where n = "File c"]) (simp add: emit_def assms(2))
  have load: "load_template env target (fs (emit Info_using_existing ?s0)) = Inr (YMap kvs)"
    using assms(2,3) by (simp add: load_template_def emit_def)
  show ?thesis
    unfolding inject_loaded[OF assms(1) ens load assms(4,5)] by (simp add: emit_def)
qed

lemma try_body_clone_called:
  assumes "try_body env target force repo (YStr b) items s = (r, s')"
    and "CHR 0x00 \<notin> set b" "\<not> nul_in_url repo"
  shows "prefix (calls s @ [Clone repo b]) (calls s')"
proof (cases "git_clone env repo b")
  case None
  with assms show ?thesis by (auto simp: try_body_def called_def Let_def)
next
  case c1: (Some c1)
  show ?thesis
  proof (cases "git_sparse_init env c1")
    case None
    with assms c1 show ?thesis by (auto simp: try_body_def called_def Let_def)
  next
    case c2: (Some c2)
    show ?thesis
    proof (cases "argv items")
      case (Inl e)
      with assms c1 c2 show ?thesis by (auto simp: try_body_def called_def Let_def)
    next
      case (Inr ps)
      show ?thesis
      proof (cases "git_sparse_set env ps c2")
        case None
        with assms c1 c2 Inr show ?thesis by (auto simp: try_body_def called_def Let_def)
      next
        case (Some c3)
        with assms c1 c2 Inr obtain s4 where
          "copy_all (tmp_dir env) target force ps s4 = (r, s')"
          "calls s4 = calls s @ [Clone repo b, Sparse_init, Sparse_set ps]"
          by (auto simp: try_body_def called_def Let_def)
        then have "calls s' = (calls s @ [Clone repo b]) @ [Sparse_init, Sparse_set ps]"
          by (auto dest: copy_all_calls)
        then show ?thesis by (simp only: prefixI)
      qed
    qed
  qed
qed

lemma materialize_calls:
  assumes "mkdtemp env (fs s) = Inr f"
    and "try_body env target force repo br items
           (emit (Info_cloning repo br) (called (Mkdtemp (tmp_dir env)) (s\<lparr>fs := f\<rparr>))) = (r, s2)"
  shows "calls (snd (materialize env target force repo br items s)) = calls s2"
    and "rmtree (tmp_dir env) (fs s2) = (None, f') \<Longrightarrow>
           fst (materialize env target force repo br items s) = r"
  using assms
  by (auto simp: materialize_def Let_def emit_def split: prod.splits option.splits)

lemmas run_defs =
  inject_def ensure_template_def load_template_def read_config_def materialize_def
  try_body_def copy_path_def remove_dst_def rmtree_def unlink_def copytree_def copy2_def
  mkdtemp_def template_file_def path_exists_def is_dir_def emit_def called_def start_def
  dict_get_def joinpath_def parts_def is_absolute_def nul_in_url_def

lemmas world_defs =
  env0_def repo_with_def bare_repo_def upstream_def manifests_def manifest_text_def
  manifest_value_def default_text_def template_content_def default_include_def


section \<open>Which exceptions the fetch and the loop raise\<close>

lemma mkdir_parents_succeeds:
  "(\<And>q c. prefix q p \<Longrightarrow> lookup f q \<noteq> Some (File c)) \<Longrightarrow> \<exists>f'. mkdir_parents p f = Inr f'"
proof (induction p arbitrary: f)
  case Nil
  show ?case
  proof (cases f)
    case (File c)
    with Nil[of "[]" c] show ?thesis by simp
  next
    case (Dir m)
    then show ?thesis by simp
  qed
next
  case (Cons x xs)
  have "\<exists>m. f = Dir m"
  proof (cases f)
    case (File c)
    with Cons.prems[of "[]" c] show ?thesis by simp
  next
    case (Dir m)
    then show ?thesis by simp
  qed
  then obtain m where f: "f = Dir m" by blast
  show ?case
  proof (cases "m x")
    case None
    with f show ?thesis by simp
  next
    case (Some k)
    have "\<exists>k'. mkdir_parents xs k = Inr k'"
    proof (rule Cons.IH)
      fix q c assume "prefix q xs"
      then have "prefix (x # q) (x # xs)" by simp
      from Cons.prems[OF this, of c] show "lookup k q \<noteq> Some (File c)" using f Some by simp
    qed
    with f Some show ?thesis by auto
  qed
qed

lemma mkdir_parents_errors:
  "mkdir_parents p f = Inl e \<Longrightarrow> e = FileExistsError \<or> e = NotADirectoryError"
proof (induction p arbitrary: f)
  case Nil
  then show ?case by (cases f) simp_all
next
  case (Cons x xs)
  then show ?case by (cases f) (auto split: option.splits sum.splits)
qed

lemma copy_path_no_exit:
  assumes "copy_path tmp target force p s = (r, s')"
  shows "r \<noteq> Some (SystemExit n)"
  using assms by (cases rule: copy_path_cases) (auto dest: mkdir_parents_errors)

lemma copy_all_no_exit:
  "copy_all tmp target force ps s = (r, s') \<Longrightarrow> r \<noteq> Some (SystemExit n)"
proof (induction ps arbitrary: s)
  case Nil
  then show ?case by simp
next
  case (Cons p ps)
  obtain r1 s1 where st: "copy_path tmp target force p s = (r1, s1)" by force
  show ?case
  proof (cases r1)
    case None
    with Cons st show ?thesis by simp
  next
    case (Some e)
    with Cons.prems st have "r = r1" by simp
    with copy_path_no_exit[OF st] show ?thesis by simp
  qed
qed

lemma argv_errors: "argv vs = Inl e \<Longrightarrow> e = TypeError \<or> e = ValueError"
  by (induction vs rule: argv.induct) (auto split: if_splits sum.splits)

lemma try_body_no_exit:
  assumes "try_body env target force repo br items s = (r, s')"
  shows "r \<noteq> Some (SystemExit n)"
proof (cases br)
  case (YStr b)
  show ?thesis
  proof (cases "CHR 0x00 \<in> set b \<or> nul_in_url repo")
    case True
    with assms YStr show ?thesis by (auto simp: try_body_def)
  next
    case ok: False
    show ?thesis
    proof (cases "git_clone env repo b")
      case None
      with assms YStr ok show ?thesis by (auto simp: try_body_def Let_def)
    next
      case c1: (Some c1)
      show ?thesis
      proof (cases "git_sparse_init env c1")
        case None
        with assms YStr ok c1 show ?thesis by (auto simp: try_body_def Let_def)
      next
        case c2: (Some c2)
        show ?thesis
        proof (cases "argv items")
          case (Inl e)
          with assms YStr ok c1 c2 argv_errors[OF Inl] show ?thesis
            by (auto simp: try_body_def Let_def)
        next
          case (Inr ps)
          show ?thesis
          proof (cases "git_sparse_set env ps c2")
            case None
            with assms YStr ok c1 c2 Inr show ?thesis by (auto simp: try_body_def Let_def)
          next
            case (Some c3)
            with assms YStr ok c1 c2 Inr obtain s4 where
              "copy_all (tmp_dir env) target force ps s4 = (r, s')"
              by (auto simp: try_body_def Let_def)
            then show ?thesis by (rule copy_all_no_exit)
          qed
        qed
      qed
    qed
  qed
qed (use assms in \<open>auto simp: try_body_def\<close>)

lemma materialize_no_exit:
  "fst (materialize env target force repo br items s) \<noteq> Some (SystemExit n)"
proof (cases "mkdtemp env (fs s)")
  case (Inl e)
  then have "e = FileExistsError \<or> e = FileNotFoundError"
    by (auto simp: mkdtemp_def split: if_splits)
  with Inl show ?thesis by (auto simp: materialize_def)
next
  case (Inr f)
  let ?s1 = "emit (Info_cloning repo br) (called (Mkdtemp (tmp_dir env)) (s\<lparr>fs := f\<rparr>))"
  obtain r s2 where tb: "try_body env target force repo br items ?s1 = (r, s2)" by force
  have r: "r \<noteq> Some (SystemExit n)" using tb by (rule try_body_no_exit)
  obtain e f' where rm: "rmtree (tmp_dir env) (fs s2) = (e, f')" by force
  then have "e \<noteq> Some (SystemExit n)"
    by (auto simp: rmtree_def split: option.splits node.splits if_splits)
  with Inr tb r rm show ?thesis
    by (auto simp: materialize_def Let_def split: option.splits)
qed

section \<open>What a run leaves in place\<close>

lemma stat_simps:
  "stat f p = Missing \<longleftrightarrow> lookup f p = None"
  "stat f p = Directory \<longleftrightarrow> is_dir f p"
  "stat f p = Regular c \<longleftrightarrow> lookup f p = Some (File c)"
  "stat f p \<noteq> Missing \<longleftrightarrow> path_exists f p"
  by (auto simp: stat_def is_dir_def path_exists_def split: option.splits node.splits)

lemma stat_cong: "lookup f p = lookup f' p' \<Longrightarrow> stat f p = stat f' p'"
  by (simp add: stat_def)

lemma stat_put_file [simp]: "r \<noteq> [] \<Longrightarrow> put r v (File c) = File c"
  by (cases r) simp_all

lemma put_keeps:
  assumes "stat f q \<noteq> Missing" "\<not> prefix p q"
  shows "stat (put p v f) q = stat f q"
proof (cases "prefix q p")
  case True
  then obtain r where r: "p = q @ r" by (auto simp: prefix_def)
  with assms(2) have ne: "r \<noteq> []" by auto
  have lk: "lookup (put p v f) q = map_option (put r v) (lookup f q)"
    unfolding r using ne by (rule lookup_put_above)
  from assms(1) obtain n where n: "lookup f q = Some n" by (auto simp: stat_def split: option.splits)
  show ?thesis
  proof (cases n)
    case (File c)
    with lk n ne show ?thesis by (simp add: stat_def)
  next
    case (Dir m)
    with lk n put_dir[of r v m] show ?thesis by (auto simp: stat_def)
  qed
next
  case False
  with assms(2) have "p \<parallel> q" by (simp add: parallel_def)
  then show ?thesis by (simp add: stat_def lookup_put_parallel)
qed

lemma mkdir_parents_no_file_above:
  "mkdir_parents p f = Inr f' \<Longrightarrow> prefix q p \<Longrightarrow> lookup f q \<noteq> Some (File c)"
proof (induction p arbitrary: f f' q)
  case Nil
  then show ?case by (cases f) auto
next
  case (Cons x xs)
  show ?case
  proof (cases f)
    case (File c')
    with Cons.prems show ?thesis by simp
  next
    case (Dir m)
    show ?thesis
    proof (cases q)
      case Nil
      with Dir show ?thesis by simp
    next
      case q: (Cons y ys)
      with Cons.prems(2) have xy: "y = x" and pre: "prefix ys xs" by simp_all
      show ?thesis
      proof (cases "m x")
        case None
        with Dir q xy show ?thesis by simp
      next
        case (Some k)
        with Cons.prems(1) Dir obtain k' where "mkdir_parents xs k = Inr k'"
          by (auto split: sum.splits)
        from Cons.IH[OF this pre] show ?thesis using Dir q xy Some by simp
      qed
    qed
  qed
qed

lemma mkdir_parents_keeps:
  assumes "mkdir_parents p f = Inr f'" "stat f q \<noteq> Missing"
  shows "stat f' q = stat f q"
proof (cases "prefix q p")
  case True
  from mkdir_parents_above[OF assms(1) True] have "stat f' q = Directory" by (simp add: stat_simps)
  moreover from mkdir_parents_no_file_above[OF assms(1) True] assms(2)
  have "stat f q = Directory" by (auto simp: stat_def split: option.splits node.splits)
  ultimately show ?thesis by simp
next
  case False
  with assms(1) have "lookup f' q = lookup f q" by (rule mkdir_parents_elsewhere)
  then show ?thesis by (rule stat_cong)
qed

lemma exists_not_below_absent:
  assumes "stat f q \<noteq> Missing" "\<not> path_exists f p"
  shows "\<not> prefix p q"
proof
  assume "prefix p q"
  then obtain r where "q = p @ r" by (auto simp: prefix_def)
  with assms(1) have "path_exists f (p @ r)" by (simp add: stat_simps(4))
  then have "path_exists f p" by (rule path_exists_prefix)
  with assms(2) show False by simp
qed

lemma copy_path_keeps:
  assumes step: "copy_path tmp target force p s = (r, s')"
    and q: "stat (fs s) q \<noteq> Missing"
    and frc: "force \<Longrightarrow> \<not> prefix (joinpath target p) q"
  shows "stat (fs s') q = stat (fs s) q"
proof -
  let ?dst = "joinpath target p"
  have np: "\<not> prefix ?dst q" if "path_exists (fs s) ?dst \<Longrightarrow> force"
  proof (cases "path_exists (fs s) ?dst")
    case True
    with that frc show ?thesis by simp
  next
    case False
    with q show ?thesis by (rule exists_not_below_absent)
  qed
  have f1: "stat f1 q = stat (fs s) q"
    if "path_exists (fs s) ?dst \<Longrightarrow> force"
      "f1 = (if path_exists (fs s) ?dst then put ?dst None (fs s) else fs s)" for f1
    using that q np[OF that(1)] by (simp add: put_keeps)
  from step show ?thesis
  proof (cases rule: copy_path_cases)
    case not_found
    then show ?thesis by (simp add: emit_def)
  next
    case skipped
    then show ?thesis by (simp add: emit_def)
  next
    case root
    with frc show ?thesis by simp
  next
    case (mkdir_failed f1 e)
    with f1[OF mkdir_failed(2,3)] show ?thesis by simp
  next
    case (src_gone f1 f2)
    from f1[OF src_gone(2,3)] q have "stat f1 q \<noteq> Missing" by simp
    from mkdir_parents_keeps[OF src_gone(4) this] f1[OF src_gone(2,3)] src_gone(7)
    show ?thesis by simp
  next
    case (added f1 f2 n)
    from f1[OF added(2,3)] q have "stat f1 q \<noteq> Missing" by simp
    from mkdir_parents_keeps[OF added(4) this] f1[OF added(2,3)]
    have f2: "stat f2 q = stat (fs s) q" by simp
    with q have "stat f2 q \<noteq> Missing" by simp
    from put_keeps[OF this np[OF added(2)]] f2 added(7) show ?thesis by (simp add: emit_def)
  qed
qed

lemma copy_all_keeps:
  assumes "copy_all tmp target force ps s = (r, s')"
    and "stat (fs s) q \<noteq> Missing"
    and "force \<Longrightarrow> \<forall>p\<in>set ps. \<not> prefix (joinpath target p) q"
  shows "stat (fs s') q = stat (fs s) q"
  using assms
proof (induction ps arbitrary: s)
  case Nil
  then show ?case by simp
next
  case (Cons p ps)
  obtain r1 s1 where st: "copy_path tmp target force p s = (r1, s1)" by force
  have k1: "stat (fs s1) q = stat (fs s) q"
    using st Cons.prems(2) by (rule copy_path_keeps) (use Cons.prems(3) in simp)
  show ?case
  proof (cases r1)
    case None
    with Cons.prems(1) st have "copy_all tmp target force ps s1 = (r, s')" by simp
    from Cons.IH[OF this] k1 Cons.prems(2,3) show ?thesis by simp
  next
    case (Some e)
    with Cons.prems(1) st have "s' = s1" by simp
    with k1 show ?thesis by simp
  qed
qed

lemma try_body_keeps:
  assumes tb: "try_body env target force repo br items s = (r, s')"
    and q: "stat (fs s) q \<noteq> Missing"
    and t: "\<not> prefix (tmp_dir env) q"
    and frc: "\<And>ps. force \<Longrightarrow> argv items = Inr ps
                \<Longrightarrow> \<forall>p\<in>set ps. \<not> prefix (joinpath target p) q"
  shows "stat (fs s') q = stat (fs s) q"
proof -
  have P: "stat (put (tmp_dir env) v f) q = stat (fs s) q" if "stat f q = stat (fs s) q" for v f
    using put_keeps[OF _ t, of f v] that q by simp
  show ?thesis
  proof (cases br)
    case (YStr b)
    show ?thesis
    proof (cases "CHR 0x00 \<in> set b \<or> nul_in_url repo")
      case True
      with tb YStr show ?thesis by (auto simp: try_body_def)
    next
      case ok: False
      show ?thesis
      proof (cases "git_clone env repo b")
        case None
        with tb YStr ok show ?thesis by (auto simp: try_body_def called_def Let_def)
      next
        case c1: (Some c1)
        show ?thesis
        proof (cases "git_sparse_init env c1")
          case None
          with tb YStr ok c1 P[OF refl] show ?thesis
            by (auto simp: try_body_def called_def Let_def)
        next
          case c2: (Some c2)
          show ?thesis
          proof (cases "argv items")
            case (Inl e)
            with tb YStr ok c1 c2 P[OF P[OF refl]] show ?thesis
              by (auto simp: try_body_def called_def Let_def)
          next
            case (Inr ps)
            show ?thesis
            proof (cases "git_sparse_set env ps c2")
              case None
              with tb YStr ok c1 c2 Inr P[OF P[OF refl]] show ?thesis
                by (auto simp: try_body_def called_def Let_def)
            next
              case (Some c3)
              with tb YStr ok c1 c2 Inr obtain s4 where
                ca: "copy_all (tmp_dir env) target force ps s4 = (r, s')"
                and f4: "fs s4 = put (tmp_dir env) (Some (Dir c3))
                   (put (tmp_dir env) (Some (Dir c2)) (put (tmp_dir env) (Some (Dir c1)) (fs s)))"
                by (auto simp: try_body_def called_def Let_def)
              have k4: "stat (fs s4) q = stat (fs s) q"
                unfolding f4 by (intro P refl)
              with q have "stat (fs s4) q \<noteq> Missing" by simp
              from copy_all_keeps[OF ca this] frc[OF _ Inr] k4 show ?thesis by simp
            qed
          qed
        qed
      qed
    qed
  qed (use tb in \<open>auto simp: try_body_def\<close>)
qed

lemma rmtree_keeps:
  assumes "rmtree p f = (e, f')" "stat f q \<noteq> Missing" "\<not> prefix p q"
  shows "stat f' q = stat f q"
proof -
  from assms(3) have "p \<noteq> []" by auto
  with assms(1) have "f' = f \<or> f' = put p None f"
    by (auto simp: rmtree_def split: option.splits node.splits)
  with put_keeps[OF assms(2,3)] show ?thesis by auto
qed

lemma materialize_keeps:
  assumes q: "stat (fs s) q \<noteq> Missing"
    and frc: "\<And>ps. force \<Longrightarrow> argv items = Inr ps
                \<Longrightarrow> \<forall>p\<in>set ps. \<not> prefix (joinpath target p) q"
  shows "stat (fs (snd (materialize env target force repo br items s))) q = stat (fs s) q"
proof (cases "mkdtemp env (fs s)")
  case (Inl e)
  then show ?thesis by (simp add: materialize_def)
next
  case (Inr f)
  let ?s1 = "emit (Info_cloning repo br) (called (Mkdtemp (tmp_dir env)) (s\<lparr>fs := f\<rparr>))"
  have t: "\<not> prefix (tmp_dir env) q"
    using q mkdtemp_created(3)[OF Inr] by (rule exists_not_below_absent)
  have k1: "stat (fs ?s1) q = stat (fs s) q"
    using put_keeps[OF q t] by (simp add: mkdtemp_created(4)[OF Inr] emit_def called_def)
  obtain r s2 where tb: "try_body env target force repo br items ?s1 = (r, s2)" by force
  have a1: "stat (fs ?s1) q \<noteq> Missing" unfolding k1 by (rule q)
  have "stat (fs s2) q = stat (fs ?s1) q" by (rule try_body_keeps[OF tb a1 t frc])
  then have k2: "stat (fs s2) q = stat (fs s) q" by (simp only: k1)
  obtain e f' where rm: "rmtree (tmp_dir env) (fs s2) = (e, f')" by force
  have k3: "stat f' q = stat (fs s) q"
    using rmtree_keeps[OF rm _ t] k2 q by simp
  have "fs (snd (materialize env target force repo br items s)) = f'"
    using Inr tb rm by (simp add: materialize_def Let_def emit_def split: option.splits)
  with k3 show ?thesis by simp
qed

lemma ensure_template_keeps:
  assumes "ensure_template env target branch s = (r, s')" "stat (fs s) q \<noteq> Missing"
  shows "stat (fs s') q = stat (fs s) q"
proof (cases "mkdir_parents (target @ [''.github'']) (fs s)")
  case (Inl e)
  with assms show ?thesis by (simp add: ensure_template_def)
next
  case (Inr f)
  have k: "stat f q = stat (fs s) q" using Inr assms(2) by (rule mkdir_parents_keeps)
  show ?thesis
  proof (cases "path_exists f (template_file target)")
    case True
    with assms Inr k show ?thesis by (auto simp: ensure_template_def emit_def)
  next
    case False
    have "\<not> prefix (template_file target) q"
      using _ False by (rule exists_not_below_absent) (use k assms(2) in simp)
    from put_keeps[OF _ this, of f] k assms(2)
    have "stat (put (template_file target)
                 (Some (File (yaml_dump env (template_content branch)))) f) q = stat (fs s) q"
      by simp
    with assms Inr False show ?thesis by (auto simp: ensure_template_def emit_def)
  qed
qed

lemma read_config_keeps:
  assumes q: "stat (fs s) q \<noteq> Missing"
    and frc: "\<And>kvs items ps. force \<Longrightarrow> config = YMap kvs
                \<Longrightarrow> py_iter (dict_get kvs ''include'' (YSeq [])) = Some items
                \<Longrightarrow> argv items = Inr ps
                \<Longrightarrow> \<forall>p\<in>set ps. \<not> prefix (joinpath target p) q"
  shows "stat (fs (snd (read_config env target branch force config s))) q = stat (fs s) q"
proof (cases config)
  case (YMap kvs)
  show ?thesis
  proof (cases "truthy (dict_get kvs ''include'' (YSeq []))")
    case False
    with YMap show ?thesis by (simp add: read_config_def emit_def Let_def)
  next
    case t: True
    show ?thesis
    proof (cases "py_iter (dict_get kvs ''include'' (YSeq []))")
      case None
      with YMap t show ?thesis by (simp add: read_config_def emit_def Let_def)
    next
      case (Some items)
      let ?s = "s\<lparr>logged := logged s @ Info_include_paths # map Info_include_item items\<rparr>"
      have "stat (fs (snd (materialize env target force
                (dict_get kvs ''template-repository'' YNull)
                (dict_get kvs ''template-branch'' (YStr branch)) items ?s))) q = stat (fs ?s) q"
      proof (rule materialize_keeps)
        show "stat (fs ?s) q \<noteq> Missing" using q by simp
      next
        fix ps assume "force" "argv items = Inr ps"
        then show "\<forall>p\<in>set ps. \<not> prefix (joinpath target p) q"
          by (rule frc[OF _ YMap Some])
      qed
      with YMap t Some show ?thesis by (simp add: read_config_def Let_def)
    qed
  qed
qed (simp_all add: read_config_def)

lemma inject_keeps:
  assumes "stat (fs s) q \<noteq> Missing"
  shows "stat (fs (snd (inject env target branch False s))) q = stat (fs s) q"
proof (cases "is_dir (fs s) (target @ [''.git''])")
  case False
  then show ?thesis by (simp add: inject_def emit_def)
next
  case True
  let ?s0 = "emit (Info_rhiza_branch branch) (emit (Info_target_repository target) s)"
  obtain r1 s1 where ens: "ensure_template env target branch ?s0 = (r1, s1)" by force
  have k1: "stat (fs s1) q = stat (fs s) q"
    using ensure_template_keeps[OF ens] assms by (simp add: emit_def)
  show ?thesis
  proof (cases r1)
    case (Some e)
    with True ens k1 show ?thesis by (simp add: inject_def)
  next
    case None
    show ?thesis
    proof (cases "load_template env target (fs s1)")
      case (Inl e)
      with True ens None k1 show ?thesis by (simp add: inject_def)
    next
      case (Inr config)
      have "stat (fs (snd (read_config env target branch False config s1))) q = stat (fs s1) q"
        by (rule read_config_keeps) (use k1 assms in simp_all)
      with True ens None Inr k1 show ?thesis by (simp add: inject_def)
    qed
  qed
qed

lemma inject_keeps_forced:
  assumes mf: "lookup (fs s) (template_file target) = Some (File c)"
    and q: "stat (fs s) q \<noteq> Missing"
    and np: "\<forall>p\<in>set (include_entries env c). \<not> prefix (joinpath target p) q"
  shows "stat (fs (snd (inject env target branch force s))) q = stat (fs s) q"
proof (cases "is_dir (fs s) (target @ [''.git''])")
  case False
  then show ?thesis by (simp add: inject_def emit_def)
next
  case True
  let ?s0 = "emit (Info_rhiza_branch branch) (emit (Info_target_repository target) s)"
  let ?s1 = "emit Info_using_existing ?s0"
  have ens: "ensure_template env target branch ?s0 = (None, ?s1)"
    by (rule ensure_template_existing[where n = "File c"]) (simp add: emit_def mf)
  have f1: "fs ?s1 = fs s" by (simp add: emit_def)
  show ?thesis
  proof (cases "yaml_safe_load env c")
    case None
    with True ens mf show ?thesis by (simp add: inject_def load_template_def emit_def)
  next
    case (Some config)
    then have load: "load_template env target (fs ?s1) = Inr config"
      using mf by (simp add: load_template_def emit_def)
    have "stat (fs (snd (read_config env target branch force config ?s1))) q = stat (fs ?s1) q"
    proof (rule read_config_keeps)
      show "stat (fs ?s1) q \<noteq> Missing" using q by (simp add: emit_def)
    next
      fix kvs items ps
      assume "config = YMap kvs" "py_iter (dict_get kvs ''include'' (YSeq [])) = Some items"
        "argv items = Inr ps"
      with Some have "include_entries env c = ps" by (simp add: include_entries_def)
      with np show "\<forall>p\<in>set ps. \<not> prefix (joinpath target p) q" by simp
    qed
    with True ens load f1 show ?thesis by (simp add: inject_def)
  qed
qed

section \<open>Writing the same entry twice; the loop reads only the file system\<close>

lemma put_put: "put p v (put p w f) = put p v f"
proof (induction p arbitrary: f)
  case Nil
  show ?case by simp
next
  case (Cons x xs)
  show ?case
  proof (cases f)
    case (File c)
    then show ?thesis by simp
  next
    case (Dir m)
    show ?thesis
    proof (cases "xs = []")
      case True
      with Dir show ?thesis by simp
    next
      case False
      with Dir Cons.IH show ?thesis by (cases "m x") simp_all
    qed
  qed
qed

lemma put_same: "lookup f p = Some n \<Longrightarrow> put p (Some n) f = f"
proof (induction p arbitrary: f)
  case Nil
  show ?case by simp
next
  case (Cons x xs)
  show ?case
  proof (cases f)
    case (File c)
    then show ?thesis by simp
  next
    case (Dir m)
    with Cons.prems obtain k where k: "m x = Some k" and l: "lookup k xs = Some n"
      by (auto split: option.splits)
    show ?thesis
    proof (cases "xs = []")
      case True
      with l have "k = n" by simp
      with k have "m(x \<mapsto> n) = m" by (simp add: map_upd_triv)
      with Dir True show ?thesis by simp
    next
      case False
      from Cons.IH[OF l] k have "m(x \<mapsto> put xs (Some n) k) = m" by (simp add: map_upd_triv)
      with Dir False k show ?thesis by simp
    qed
  qed
qed

lemma put_none_absent: "lookup f p = None \<Longrightarrow> put p None f = f"
proof (induction p arbitrary: f)
  case Nil
  then show ?case by simp
next
  case (Cons x xs)
  show ?case
  proof (cases f)
    case (File c)
    then show ?thesis by simp
  next
    case (Dir m)
    show ?thesis
    proof (cases "m x")
      case None
      then have "m(x := None) = m" by (simp add: fun_upd_idem)
      with Dir None show ?thesis by simp
    next
      case (Some k)
      show ?thesis
      proof (cases "xs = []")
        case True
        with Cons.prems Dir Some show ?thesis by simp
      next
        case False
        from Cons.prems Dir Some have "lookup k xs = None" by simp
        from Cons.IH[OF this] Some have "m(x \<mapsto> put xs None k) = m" by (simp add: map_upd_triv)
        with Dir False Some show ?thesis by simp
      qed
    qed
  qed
qed

lemma copy_path_fs_only:
  assumes "fs s = fs t"
  shows "fst (copy_path tmp target force p s) = fst (copy_path tmp target force p t)"
    and "fs (snd (copy_path tmp target force p s)) = fs (snd (copy_path tmp target force p t))"
  using assms
  by (auto simp add: copy_path_def Let_def emit_def split: prod.splits option.splits sum.splits)

lemma copy_all_fs_only:
  assumes "fs s = fs t"
  shows "fst (copy_all tmp target force ps s) = fst (copy_all tmp target force ps t)
       \<and> fs (snd (copy_all tmp target force ps s)) = fs (snd (copy_all tmp target force ps t))"
  using assms
proof (induction ps arbitrary: s t)
  case Nil
  then show ?case by simp
next
  case (Cons p ps)
  obtain r1 s1 where a: "copy_path tmp target force p s = (r1, s1)" by force
  obtain r2 t1 where b: "copy_path tmp target force p t = (r2, t1)" by force
  from copy_path_fs_only[OF Cons.prems, of tmp target force p] a b
  have r: "r1 = r2" and f: "fs s1 = fs t1" by simp_all
  show ?case
  proof (cases r1)
    case None
    with r have "r2 = None" by simp
    with a b None Cons.IH[OF f] show ?thesis by simp
  next
    case (Some e)
    with r have "r2 = Some e" by simp
    with a b Some f show ?thesis by simp
  qed
qed

lemma copy_all_append:
  "copy_all tmp target force (xs @ ys) s =
     (case copy_all tmp target force xs s of
        (Some e, s1) \<Rightarrow> (Some e, s1)
      | (None, s1) \<Rightarrow> copy_all tmp target force ys s1)"
proof (induction xs arbitrary: s)
  case Nil
  show ?case by simp
next
  case (Cons x xs)
  obtain r1 s1 where a: "copy_path tmp target force x s = (r1, s1)" by force
  show ?case by (cases r1) (simp_all add: a Cons.IH)
qed


section \<open>The log of a run and the default manifest\<close>

lemma scratch_parallel:
  assumes "mkdtemp env f = Inr f'" "is_dir f (target @ [''.git''])"
    and "\<not> prefix target (tmp_dir env)"
  shows "tmp_dir env \<parallel> target @ r"
proof -
  have ab: "\<not> path_exists f (tmp_dir env)" by (rule mkdtemp_created(3)[OF assms(1)])
  have ex: "path_exists f (target @ [''.git''])"
    using assms(2) by (auto simp: is_dir_def path_exists_def split: option.splits)
  have "\<not> prefix (tmp_dir env) target"
  proof
    assume "prefix (tmp_dir env) target"
    then obtain u where "target = tmp_dir env @ u" by (auto simp: prefix_def)
    with ex have "path_exists f (tmp_dir env @ (u @ [''.git'']))" by simp
    then have "path_exists f (tmp_dir env)" by (rule path_exists_prefix)
    with ab show False by simp
  qed
  with assms(3) have "\<not> prefix (tmp_dir env) (target @ r)" by (auto simp: prefix_append)
  moreover have "\<not> prefix (target @ r) (tmp_dir env)"
    using assms(3) by (auto dest: append_prefixD)
  ultimately show ?thesis by (simp add: parallel_def)
qed

lemma copy_path_log_prefix:
  assumes "copy_path tmp target force p s = (r, s')"
  shows "prefix (logged s) (logged s')"
  using assms by (cases rule: copy_path_cases) (auto simp: emit_def)

lemma copy_all_log_prefix:
  "copy_all tmp target force ps s = (r, s') \<Longrightarrow> prefix (logged s) (logged s')"
proof (induction ps arbitrary: s)
  case Nil
  then show ?case by simp
next
  case (Cons p ps)
  obtain r1 s1 where a: "copy_path tmp target force p s = (r1, s1)" by force
  have p1: "prefix (logged s) (logged s1)" using a by (rule copy_path_log_prefix)
  show ?case
  proof (cases r1)
    case None
    with Cons.prems a have "copy_all tmp target force ps s1 = (r, s')" by simp
    from Cons.IH[OF this] p1 show ?thesis by (rule prefix_order.trans[rotated])
  next
    case (Some e)
    with Cons.prems a p1 show ?thesis by simp
  qed
qed

lemma try_body_log_prefix:
  assumes "try_body env target force repo br items s = (r, s')"
  shows "prefix (logged s) (logged s')"
proof (cases br)
  case (YStr b)
  show ?thesis
  proof (cases "CHR 0x00 \<in> set b \<or> nul_in_url repo")
    case True
    with assms YStr show ?thesis by (auto simp: try_body_def)
  next
    case ok: False
    show ?thesis
    proof (cases "git_clone env repo b")
      case None
      with assms YStr ok show ?thesis by (auto simp: try_body_def called_def Let_def)
    next
      case c1: (Some c1)
      show ?thesis
      proof (cases "git_sparse_init env c1")
        case None
        with assms YStr ok c1 show ?thesis by (auto simp: try_body_def called_def Let_def)
      next
        case c2: (Some c2)
        show ?thesis
        proof (cases "argv items")
          case (Inl e)
          with assms YStr ok c1 c2 show ?thesis by (auto simp: try_body_def called_def Let_def)
        next
          case (Inr ps)
          show ?thesis
          proof (cases "git_sparse_set env ps c2")
            case None
            with assms YStr ok c1 c2 Inr show ?thesis
              by (auto simp: try_body_def called_def Let_def)
          next
            case (Some c3)
            with assms YStr ok c1 c2 Inr obtain s4 where
              "copy_all (tmp_dir env) target force ps s4 = (r, s')" "logged s4 = logged s"
              by (auto simp: try_body_def called_def Let_def)
            then show ?thesis by (auto dest: copy_all_log_prefix)
          qed
        qed
      qed
    qed
  qed
qed (use assms in \<open>auto simp: try_body_def\<close>)

lemma materialize_log_prefix:
  "prefix (logged s) (logged (snd (materialize env target force repo br items s)))"
proof (cases "mkdtemp env (fs s)")
  case (Inl e)
  then show ?thesis by (simp add: materialize_def)
next
  case (Inr f)
  let ?s1 = "emit (Info_cloning repo br) (called (Mkdtemp (tmp_dir env)) (s\<lparr>fs := f\<rparr>))"
  obtain r s2 where tb: "try_body env target force repo br items ?s1 = (r, s2)" by force
  have "prefix (logged ?s1) (logged s2)" using tb by (rule try_body_log_prefix)
  moreover have "prefix (logged s) (logged ?s1)" by (simp add: emit_def called_def)
  ultimately have p: "prefix (logged s) (logged s2)" by (rule prefix_order.trans[rotated])
  obtain e f' where rm: "rmtree (tmp_dir env) (fs s2) = (e, f')" by force
  have "prefix (logged s2) (logged (snd (materialize env target force repo br items s)))"
    using Inr tb rm by (auto simp: materialize_def Let_def emit_def split: option.splits)
  with p show ?thesis by (rule prefix_order.trans)
qed

lemma materialize_cloning_logged:
  assumes "mkdtemp env (fs s) = Inr f"
  shows "prefix (logged s @ [Info_cloning repo br])
           (logged (snd (materialize env target force repo br items s)))"
proof -
  let ?s1 = "emit (Info_cloning repo br) (called (Mkdtemp (tmp_dir env)) (s\<lparr>fs := f\<rparr>))"
  obtain r s2 where tb: "try_body env target force repo br items ?s1 = (r, s2)" by force
  have "prefix (logged ?s1) (logged s2)" using tb by (rule try_body_log_prefix)
  then have p: "prefix (logged s @ [Info_cloning repo br]) (logged s2)"
    by (simp add: emit_def called_def)
  obtain e f' where rm: "rmtree (tmp_dir env) (fs s2) = (e, f')" by force
  have "prefix (logged s2) (logged (snd (materialize env target force repo br items s)))"
    using assms tb rm by (auto simp: materialize_def Let_def emit_def split: option.splits)
  with p show ?thesis by (rule prefix_order.trans)
qed

lemma try_body_checked_out:
  assumes "CHR 0x00 \<notin> set b" "\<not> nul_in_url repo" "argv items = Inr ps"
    and "checkout env repo b ps = Some c3"
    and "try_body env target force repo (YStr b) items s = (r, s')"
  shows "calls s' = calls s @ [Clone repo b, Sparse_init, Sparse_set ps]"
proof -
  from assms obtain s4 where
    "copy_all (tmp_dir env) target force ps s4 = (r, s')"
    "calls s4 = calls s @ [Clone repo b, Sparse_init, Sparse_set ps]"
    by (auto simp: try_body_def checkout_def called_def Let_def split: option.splits)
  then show ?thesis by (auto dest: copy_all_calls)
qed

lemma default_manifest_written:
  assumes git: "is_dir (fs s) (target @ [''.git''])"
    and absent: "\<not> path_exists (fs s) (template_file target)"
    and nofile: "\<And>c. lookup (fs s) (target @ [''.github'']) \<noteq> Some (File c)"
  obtains f where "mkdir_parents (target @ [''.github'']) (fs s) = Inr f"
    and "ensure_template env target branch s
           = (None, emit Success_template_created
                ((emit Info_creating_default s)
                   \<lparr>fs := put (template_file target)
                            (Some (File (yaml_dump env (template_content branch)))) f\<rparr>))"
    and "lookup (put (template_file target)
                   (Some (File (yaml_dump env (template_content branch)))) f)
           (template_file target)
         = Some (File (yaml_dump env (template_content branch)))"
proof -
  let ?gh = "target @ [''.github'']"
  let ?mf = "template_file target"
  let ?text = "yaml_dump env (template_content branch)"
  have tdir: "is_dir (fs s) target"
    using git is_dir_strict_prefix[of "fs s" target "[''.git'']"]
    by (auto simp: is_dir_def path_exists_def split: option.splits)
  have "\<exists>f. mkdir_parents ?gh (fs s) = Inr f"
  proof (rule mkdir_parents_succeeds)
    fix q c assume pre: "prefix q ?gh"
    show "lookup (fs s) q \<noteq> Some (File c)"
    proof (cases "q = ?gh")
      case True
      with nofile show ?thesis by simp
    next
      case False
      with pre have "prefix q target" by (simp add: prefix_snoc)
      then obtain r where "target = q @ r" by (auto simp: prefix_def)
      with tdir show ?thesis
        by (cases r) (auto simp: is_dir_def lookup_append split: option.splits node.splits)
    qed
  qed
  then obtain f where mk: "mkdir_parents ?gh (fs s) = Inr f" by blast
  have np: "\<not> prefix ?mf ?gh" by (simp add: template_file_def)
  have ab: "\<not> path_exists f ?mf"
    using absent mkdir_parents_elsewhere[OF mk np] by (simp add: path_exists_def)
  have ens: "ensure_template env target branch s
           = (None, emit Success_template_created
                ((emit Info_creating_default s)\<lparr>fs := put ?mf (Some (File ?text)) f\<rparr>))"
    using mk ab by (simp add: ensure_template_def emit_def)
  have ghd: "is_dir f (butlast ?mf)" using mkdir_parents_is_dir[OF mk] by simp
  have mne: "?mf \<noteq> []" by (simp add: template_file_def)
  have lk: "lookup (put ?mf (Some (File ?text)) f) ?mf = Some (File ?text)"
    using lookup_put_written[OF mne ghd, of "File ?text" "[]"] by simp
  from that[OF mk ens lk] show thesis .
qed

lemma argv_default_include:
  "argv default_include
     = Inr [''.github'', ''/.editorconfig'', ''/.gitignore'', ''/.pre-commit-config.yaml'',
            ''/Makefile'', ''/pytest.ini'']"
  by (simp add: default_include_def)

section \<open>The destination when the copy starts\<close>

lemma copy_destination_absent:
  assumes "remove_dst dst f = (None, f1)" "mkdir_parents (butlast dst) f1 = Inr f2"
    and "dst \<noteq> []"
  shows "\<not> path_exists f2 dst" "is_dir f2 (butlast dst)"
proof -
  have "lookup f1 dst = None"
  proof (cases "path_exists f dst")
    case True
    with assms(1,3) have "f1 = put dst None f" by (simp add: remove_dst_alt split: if_splits)
    then show ?thesis using lookup_put_removed[OF assms(3), of f "[]"] by simp
  next
    case False
    with assms(1) have "f1 = f" by (simp add: remove_dst_alt)
    with False show ?thesis by (simp add: path_exists_def split: option.splits)
  qed
  moreover have "lookup f2 dst = lookup f1 dst"
    using assms(2) not_prefix_butlast[OF assms(3)] by (rule mkdir_parents_elsewhere)
  ultimately show "\<not> path_exists f2 dst" by (simp add: path_exists_def)
  show "is_dir f2 (butlast dst)" using assms(2) by (rule mkdir_parents_is_dir)
qed

section \<open>Runs that reach the loop\<close>







section \<open>The loop with force\<close>

lemma scratch_source:
  assumes "lookup f tmp = Some (Dir c3)" "\<not> is_absolute x"
  shows "lookup f (joinpath tmp x) = lookup (Dir c3) (parts x)"
  using assms by (simp add: joinpath_def lookup_append)




lemma copy_path_synced:
  assumes step: "copy_path tmp target True x s = (r, s')"
    and par: "tmp \<parallel> target"
    and co: "lookup (fs s) tmp = Some (Dir c3)"
    and rel: "\<not> is_absolute x"
    and syn: "\<And>n. lookup (Dir c3) (parts x) = Some n \<Longrightarrow> lookup (fs s) (target @ parts x) = Some n"
  shows "r = None \<and> fs s' = fs s"
proof -
  let ?a = "parts x"
  let ?dst = "target @ ?a"
  let ?src = "tmp @ ?a"
  have src: "joinpath tmp x = ?src" and dst: "joinpath target x = ?dst"
    using rel by (simp_all add: joinpath_def)
  have tne: "target \<noteq> []" using par by auto
  then have dne: "?dst \<noteq> []" by simp
  have sd: "?dst \<parallel> ?src" using parallel_append[OF par, of ?a ?a] by (simp add: parallel_commute)
  have up: "lookup (fs s) ?src = lookup (Dir c3) ?a"
    using scratch_source[OF co rel] by (simp add: src)
  show ?thesis
  proof (cases "lookup (Dir c3) ?a")
    case None
    with up have "\<not> path_exists (fs s) (joinpath tmp x)" by (simp add: src path_exists_def)
    with step show ?thesis by (auto simp: copy_path_def Let_def emit_def)
  next
    case (Some n)
    have here: "lookup (fs s) ?dst = Some n" using Some by (rule syn)
    then have ex: "path_exists (fs s) ?dst" by (simp add: path_exists_def)
    have rm: "mkdir_parents (butlast ?dst) (put ?dst None (fs s)) = Inr (put ?dst None (fs s))"
      using ex dne by (rule mkdir_after_remove)
    have keep: "lookup (put ?dst None (fs s)) ?src = Some n"
      unfolding lookup_put_parallel[OF sd] up by (rule Some)
    from step show ?thesis
    proof (cases rule: copy_path_cases)
      case not_found
      then show ?thesis by (simp add: emit_def)
    next
      case skipped
      then show ?thesis by simp
    next
      case root
      with dne show ?thesis by (simp add: dst)
    next
      case (mkdir_failed f1 e)
      with ex rm show ?thesis by (simp add: dst)
    next
      case (src_gone f1 f2)
      with ex rm keep show ?thesis by (simp add: dst src)
    next
      case (added f1 f2 m)
      with ex rm keep have "f2 = put ?dst None (fs s)" "m = n" by (simp_all add: dst src)
      with added(6,7) show ?thesis
        by (simp add: dst emit_def put_put put_same[OF here])
    qed
  qed
qed


lemma copy_all_synced:
  assumes "tmp \<parallel> target"
    and "lookup (fs s) tmp = Some (Dir c3)"
    and "\<forall>x\<in>set ps. \<not> is_absolute x"
    and "\<forall>x\<in>set ps. \<forall>n. lookup (Dir c3) (parts x) = Some n
           \<longrightarrow> lookup (fs s) (target @ parts x) = Some n"
  shows "fst (copy_all tmp target True ps s) = None
       \<and> fs (snd (copy_all tmp target True ps s)) = fs s"
  using assms
proof (induction ps arbitrary: s)
  case Nil
  then show ?case by simp
next
  case (Cons x xs)
  obtain r1 s1 where st: "copy_path tmp target True x s = (r1, s1)" by force
  have "r1 = None \<and> fs s1 = fs s"
    using st Cons.prems(1,2) by (rule copy_path_synced) (use Cons.prems(3,4) in simp_all)
  then have r1: "r1 = None" and f1: "fs s1 = fs s" by simp_all
  have "fst (copy_all tmp target True xs s1) = None
       \<and> fs (snd (copy_all tmp target True xs s1)) = fs s1"
    by (rule Cons.IH) (use Cons.prems f1 in simp_all)
  with st r1 f1 show ?case by simp
qed




section \<open>Validation of the target and of the manifest\<close>

text \<open>
  Claim C5.  When the target has no \<^verbatim>\<open>.git\<close> directory, \<^verbatim>\<open>inject\<close> exits with status 1:
  the file system is what it was (neither the manifest nor \<^verbatim>\<open>.github\<close> is created),
  nothing is fetched, and the one thing logged is the error.
\<close>

theorem inject_not_a_repository:
  assumes "\<not> is_dir (fs s) (target @ [''.git''])"
  shows "fst (inject env target branch force s) = Some (SystemExit 1)
       \<and> fs (snd (inject env target branch force s)) = fs s
       \<and> calls (snd (inject env target branch force s)) = calls s
       \<and> logged (snd (inject env target branch force s))
           = logged s @ [Error_not_a_git_repository target]"
  using assms by (simp add: inject_def emit_def)

theorem inject_not_a_repository_witness:
  "\<not> is_dir (fs (start (Dir Map.empty))) ([''repo''] @ [''.git''])
   \<and> fst (inject env0 [''repo''] ''main'' True (start (Dir Map.empty))) = Some (SystemExit 1)
   \<and> fs (snd (inject env0 [''repo''] ''main'' True (start (Dir Map.empty)))) = Dir Map.empty"
  using inject_not_a_repository [of "start (Dir Map.empty)" "[''repo'']" env0 "''main''" True]
  by (simp add: is_dir_def start_def)

text \<open>
  Claim C4.  When the manifest is a mapping whose \<^verbatim>\<open>include\<close> is missing or is the empty
  sequence, \<^verbatim>\<open>inject\<close> exits with status 1 before \<^verbatim>\<open>mkdtemp\<close> and before any run of the
  client: the file system is unchanged (no scratch directory) and no call is recorded.
\<close>

theorem inject_empty_include:
  assumes "is_dir (fs s) (target @ [''.git''])"
    and "lookup (fs s) (template_file target) = Some (File c)"
    and "yaml_safe_load env c = Some (YMap kvs)"
    and "map_of kvs (YStr ''include'') = None \<or> map_of kvs (YStr ''include'') = Some (YSeq [])"
  shows "fst (inject env target branch force s) = Some (SystemExit 1)
       \<and> fs (snd (inject env target branch force s)) = fs s
       \<and> calls (snd (inject env target branch force s)) = calls s"
proof -
  let ?s0 = "emit (Info_rhiza_branch branch) (emit (Info_target_repository target) s)"
  have fs0: "fs ?s0 = fs s" by (simp add: emit_def)
  have ens: "ensure_template env target branch ?s0 = (None, emit Info_using_existing ?s0)"
    by (rule ensure_template_existing) (simp add: fs0 assms(2))
  have load: "load_template env target (fs s) = Inr (YMap kvs)"
    using assms(2,3) by (simp add: load_template_def)
  have inc: "\<not> truthy (dict_get kvs ''include'' (YSeq []))"
    using assms(4) by (auto simp: dict_get_def)
  show ?thesis
    using assms(1) ens load inc
    by (simp add: inject_def read_config_def emit_def Let_def)
qed

theorem inject_empty_include_witness:
  "is_dir (fs (start (repo_with (manifest_text [])))) ([''repo''] @ [''.git''])
   \<and> lookup (fs (start (repo_with (manifest_text [])))) (template_file [''repo''])
       = Some (File (manifest_text []))
   \<and> yaml_safe_load env0 (manifest_text []) = Some (manifest_value [])
   \<and> fst (inject env0 [''repo''] ''main'' False (start (repo_with (manifest_text []))))
       = Some (SystemExit 1)
   \<and> calls (snd (inject env0 [''repo''] ''main'' False (start (repo_with (manifest_text []))))) = []"
proof -
  have a: "is_dir (fs (start (repo_with (manifest_text [])))) ([''repo''] @ [''.git''])"
    by (simp add: is_dir_def start_def repo_with_def)
  have b: "lookup (fs (start (repo_with (manifest_text [])))) (template_file [''repo''])
       = Some (File (manifest_text []))"
    by (simp add: start_def repo_with_def template_file_def)
  have c: "yaml_safe_load env0 (manifest_text [])
       = Some (YMap [(YStr ''template-repository'', YStr ''o/t''), (YStr ''include'', YSeq [])])"
    by (simp add: env0_def manifests_def manifest_text_def manifest_value_def)
  have d: "map_of [(YStr ''template-repository'', YStr ''o/t''), (YStr ''include'', YSeq [])]
             (YStr ''include'') = None
         \<or> map_of [(YStr ''template-repository'', YStr ''o/t''), (YStr ''include'', YSeq [])]
             (YStr ''include'') = Some (YSeq [])"
    by simp
  show ?thesis
    using inject_empty_include [OF a b c d, of "''main''" False] a b c
    by (simp add: manifest_value_def start_def)
qed

section \<open>The scratch directory after the run\<close>

text \<open>
  Claim C3.  Once \<^verbatim>\<open>mkdtemp\<close> has created the scratch directory (the call is recorded),
  no run of \<^verbatim>\<open>inject\<close> leaves it behind: whether the run ends normally, the clone fails,
  the sparse checkout fails or a round of the copy loop raises, the \<^verbatim>\<open>finally\<close> clause
  runs and the scratch path does not exist in the final file system.
\<close>

theorem inject_removes_scratch:
  assumes "Mkdtemp (tmp_dir env) \<in> set (calls (snd (inject env target branch force (start f))))"
  shows "\<not> path_exists (fs (snd (inject env target branch force (start f)))) (tmp_dir env)"
proof -
  have c0: "calls (start f) = []" by (simp add: start_def)
  from inject_shape[of env target branch force "start f"] assms c0
  obtain repo br items s2 where
    inj: "inject env target branch force (start f) = materialize env target force repo br items s2"
    and c2: "calls s2 = []" by auto
  show ?thesis
  proof (cases "mkdtemp env (fs s2)")
    case (Inl e)
    with inj c2 assms show ?thesis by (simp add: materialize_no_scratch)
  next
    case (Inr f')
    then show ?thesis unfolding inj by (rule materialize_scratch)
  qed
qed

theorem inject_removes_scratch_witness:
  "Mkdtemp (tmp_dir env0)
     \<in> set (calls (snd (inject env0 [''repo''] ''main'' True
                         (start (repo_with (manifest_text ''Makefile, a''))))))
   \<and> \<not> path_exists
         (fs (snd (inject env0 [''repo''] ''main'' True
                     (start (repo_with (manifest_text ''Makefile, a''))))))
         (tmp_dir env0)"
proof -
  have a: "Mkdtemp (tmp_dir env0)
     \<in> set (calls (snd (inject env0 [''repo''] ''main'' True
                         (start (repo_with (manifest_text ''Makefile, a''))))))"
    by (simp add: run_defs world_defs Let_def)
  from inject_removes_scratch[OF a] a show ?thesis by simp
qed

section \<open>A manifest without a repository\<close>

text \<open>
  Claim C10.  A manifest with no \<^verbatim>\<open>template-repository\<close> is not rejected before the fetch:
  when \<^verbatim>\<open>include\<close> is non-empty and the branch is a string, the scratch directory is
  created and \<^verbatim>\<open>git clone\<close> is run with the repository value \<^verbatim>\<open>None\<close> (the URL
  \<^verbatim>\<open>https://github.com/None.git\<close>).  When the client refuses that URL, the run ends with
  CalledProcessError after exactly these two calls, and the scratch directory is removed.
\<close>

theorem inject_missing_repository:
  assumes git: "is_dir (fs s) (target @ [''.git''])"
    and mf: "lookup (fs s) (template_file target) = Some (File c)"
    and load: "yaml_safe_load env c = Some (YMap kvs)"
    and norepo: "map_of kvs (YStr ''template-repository'') = None"
    and inc: "truthy (dict_get kvs ''include'' (YSeq []))"
    and iter: "py_iter (dict_get kvs ''include'' (YSeq [])) = Some items"
    and br: "dict_get kvs ''template-branch'' (YStr branch) = YStr b"
    and nul: "CHR 0x00 \<notin> set b"
    and tmp: "mkdtemp env (fs s) = Inr f"
  shows "prefix (calls s @ [Mkdtemp (tmp_dir env), Clone YNull b])
           (calls (snd (inject env target branch force s)))
       \<and> (git_clone env YNull b = None \<longrightarrow>
            fst (inject env target branch force s) = Some CalledProcessError
          \<and> calls (snd (inject env target branch force s))
              = calls s @ [Mkdtemp (tmp_dir env), Clone YNull b]
          \<and> \<not> path_exists (fs (snd (inject env target branch force s))) (tmp_dir env))"
proof -
  let ?s2 = "s\<lparr>logged := logged s @ [Info_target_repository target, Info_rhiza_branch branch,
                 Info_using_existing, Info_include_paths] @ map Info_include_item items\<rparr>"
  let ?s3 = "emit (Info_cloning YNull (YStr b)) (called (Mkdtemp (tmp_dir env)) (?s2\<lparr>fs := f\<rparr>))"
  have repo: "dict_get kvs ''template-repository'' YNull = YNull"
    using norepo by (simp add: dict_get_def)
  have inj: "inject env target branch force s = materialize env target force YNull (YStr b) items ?s2"
    using inject_existing_manifest[OF git mf load inc iter, of branch force] by (simp add: repo br)
  have tmp2: "mkdtemp env (fs ?s2) = Inr f" using tmp by simp
  obtain r s4 where tb: "try_body env target force YNull (YStr b) items ?s3 = (r, s4)" by force
  have url: "\<not> nul_in_url YNull" by (simp add: nul_in_url_def)
  have c3: "calls ?s3 = calls s @ [Mkdtemp (tmp_dir env)]" by (simp add: emit_def called_def)
  from try_body_clone_called[OF tb nul url]
  have "prefix (calls s @ [Mkdtemp (tmp_dir env), Clone YNull b]) (calls s4)"
    by (simp add: emit_def called_def)
  then have one: "prefix (calls s @ [Mkdtemp (tmp_dir env), Clone YNull b])
           (calls (snd (inject env target branch force s)))"
    unfolding inj materialize_calls(1)[OF tmp2 tb] .
  have two: "fst (inject env target branch force s) = Some CalledProcessError
          \<and> calls (snd (inject env target branch force s))
              = calls s @ [Mkdtemp (tmp_dir env), Clone YNull b]
          \<and> \<not> path_exists (fs (snd (inject env target branch force s))) (tmp_dir env)"
    if fail: "git_clone env YNull b = None"
  proof -
    from tb fail nul url have r: "r = Some CalledProcessError"
      and s4: "s4 = called (Clone YNull b) ?s3"
      by (auto simp: try_body_def Let_def)
    have d: "is_dir (fs s4) (tmp_dir env)"
      using mkdtemp_created(2)[OF tmp] by (simp add: s4 called_def emit_def)
    then obtain m where "lookup (fs s4) (tmp_dir env) = Some (Dir m)"
      by (auto simp: is_dir_def split: option.splits node.splits)
    then have rm: "rmtree (tmp_dir env) (fs s4) = (None, put (tmp_dir env) None (fs s4))"
      using mkdtemp_created(1)[OF tmp] by (simp add: rmtree_def)
    have "fst (inject env target branch force s) = Some CalledProcessError"
      unfolding inj using materialize_calls(2)[OF tmp2 tb rm] r by simp
    moreover have "calls (snd (inject env target branch force s))
              = calls s @ [Mkdtemp (tmp_dir env), Clone YNull b]"
      unfolding inj materialize_calls(1)[OF tmp2 tb] by (simp add: s4 called_def emit_def)
    moreover have "\<not> path_exists (fs (snd (inject env target branch force s))) (tmp_dir env)"
      unfolding inj by (rule materialize_scratch[OF tmp2])
    ultimately show ?thesis by simp
  qed
  from one two show ?thesis by blast
qed

theorem inject_missing_repository_witness:
  "is_dir (fs (start (repo_with ''include: [a]''))) ([''repo''] @ [''.git''])
   \<and> lookup (fs (start (repo_with ''include: [a]''))) (template_file [''repo''])
       = Some (File ''include: [a]'')
   \<and> yaml_safe_load env0 ''include: [a]'' = Some (YMap [(YStr ''include'', YSeq [YStr ''a''])])
   \<and> git_clone env0 YNull ''main'' = None
   \<and> fst (inject env0 [''repo''] ''main'' False (start (repo_with ''include: [a]'')))
       = Some CalledProcessError
   \<and> calls (snd (inject env0 [''repo''] ''main'' False (start (repo_with ''include: [a]''))))
       = [Mkdtemp [''tmp'', ''scratch''], Clone YNull ''main'']
   \<and> \<not> path_exists (fs (snd (inject env0 [''repo''] ''main'' False
                                 (start (repo_with ''include: [a]''))))) [''tmp'', ''scratch'']"
proof -
  let ?kvs = "[(YStr ''include'', YSeq [YStr ''a''])]"
  let ?s = "start (repo_with ''include: [a]'')"
  have a: "is_dir (fs ?s) ([''repo''] @ [''.git''])"
    by (simp add: is_dir_def start_def repo_with_def)
  have b: "lookup (fs ?s) (template_file [''repo'']) = Some (File ''include: [a]'')"
    by (simp add: start_def repo_with_def template_file_def)
  have c: "yaml_safe_load env0 ''include: [a]'' = Some (YMap ?kvs)"
    by (simp add: env0_def manifests_def manifest_text_def manifest_value_def)
  have d: "map_of ?kvs (YStr ''template-repository'') = None" by simp
  have e: "truthy (dict_get ?kvs ''include'' (YSeq []))" by (simp add: dict_get_def)
  have f: "py_iter (dict_get ?kvs ''include'' (YSeq [])) = Some [YStr ''a'']"
    by (simp add: dict_get_def)
  have g: "dict_get ?kvs ''template-branch'' (YStr ''main'') = YStr ''main''"
    by (simp add: dict_get_def)
  have h: "CHR 0x00 \<notin> set ''main''" by simp
  have i: "mkdtemp env0 (fs ?s)
         = Inr (put (tmp_dir env0) (Some (Dir Map.empty)) (repo_with ''include: [a]''))"
    by (simp add: mkdtemp_def env0_def start_def repo_with_def path_exists_def is_dir_def)
  have j: "git_clone env0 YNull ''main'' = None" by (simp add: env0_def)
  have t: "tmp_dir env0 = [''tmp'', ''scratch'']" by (simp add: env0_def)
  from inject_missing_repository[OF a b c d e f g h i, of False] j a b c t
  show ?thesis by (simp add: start_def)
qed
section \<open>The default manifest\<close>

text \<open>
  Claim C8, as amended.  The claim is made for every target without
  \<^verbatim>\<open>.github/template.yml\<close>.  When \<^verbatim>\<open>.github\<close> is a regular file, line 40 raises
  FileExistsError: no manifest is written and the run ends there (the counterexample
  below).

  What holds, for a repository without a manifest whose \<^verbatim>\<open>.github\<close> is a directory or is
  missing, and a YAML library that reads back its own dump of the default manifest:
  \<^item> the run never ends with the exit for an empty manifest;
  \<^item> the log of the run continues the log so far with the creation of the manifest and
    the six default include entries, in their order;
  \<^item> without force, the manifest holds the dump of the default manifest (repository
    \<^verbatim>\<open>jebel-quant/rhiza\<close>, the caller's branch, the six entries) when the run is over;
  \<^item> when the branch has no NUL byte and the scratch directory can be created outside the
    target, the run creates it and runs \<^verbatim>\<open>git clone\<close> for \<^verbatim>\<open>jebel-quant/rhiza\<close> at the
    caller's branch; when the three runs of the client succeed, the calls of the run are
    exactly these, with \<^verbatim>\<open>git sparse-checkout set\<close> given the six default entries.

  With force the default entry \<^verbatim>\<open>.github\<close> makes the loop replace the directory that holds
  the manifest just written by upstream's \<^verbatim>\<open>.github\<close> (lemma
  \<open>inject_default_manifest_forced\<close> below), so the statement about the file after the run
  is made without force.
\<close>

theorem inject_creates_default_manifest:
  assumes git: "is_dir (fs s) (target @ [''.git''])"
    and absent: "\<not> path_exists (fs s) (template_file target)"
    and nofile: "\<And>c. lookup (fs s) (target @ [''.github'']) \<noteq> Some (File c)"
    and codec: "yaml_safe_load env (yaml_dump env (template_content branch))
                  = Some (template_content branch)"
  shows "fst (inject env target branch force s) \<noteq> Some (SystemExit 1)
       \<and> prefix (logged s @
                  [Info_target_repository target, Info_rhiza_branch branch,
                   Info_creating_default, Success_template_created, Info_include_paths]
                  @ map Info_include_item default_include)
           (logged (snd (inject env target branch force s)))
       \<and> lookup (fs (snd (inject env target branch False s))) (template_file target)
           = Some (File (yaml_dump env (template_content branch)))
       \<and> (CHR 0x00 \<notin> set branch \<and> mkdtemp env (fs s) = Inr f0
            \<and> \<not> prefix target (tmp_dir env) \<longrightarrow>
            prefix (calls s @ [Mkdtemp (tmp_dir env), Clone (YStr ''jebel-quant/rhiza'') branch])
              (calls (snd (inject env target branch force s)))
          \<and> prefix (logged s @
                  [Info_target_repository target, Info_rhiza_branch branch,
                   Info_creating_default, Success_template_created, Info_include_paths]
                  @ map Info_include_item default_include
                  @ [Info_cloning (YStr ''jebel-quant/rhiza'') (YStr branch)])
              (logged (snd (inject env target branch force s)))
          \<and> (checkout env (YStr ''jebel-quant/rhiza'') branch
                [''.github'', ''/.editorconfig'', ''/.gitignore'', ''/.pre-commit-config.yaml'',
                 ''/Makefile'', ''/pytest.ini''] = Some c3 \<longrightarrow>
              calls (snd (inject env target branch force s))
                = calls s @ [Mkdtemp (tmp_dir env), Clone (YStr ''jebel-quant/rhiza'') branch,
                    Sparse_init,
                    Sparse_set [''.github'', ''/.editorconfig'', ''/.gitignore'',
                      ''/.pre-commit-config.yaml'', ''/Makefile'', ''/pytest.ini'']]))"
proof -
  let ?gh = "target @ [''.github'']"
  let ?mf = "template_file target"
  let ?text = "yaml_dump env (template_content branch)"
  let ?repo = "YStr ''jebel-quant/rhiza''"
  let ?ps = "[''.github'', ''/.editorconfig'', ''/.gitignore'', ''/.pre-commit-config.yaml'',
              ''/Makefile'', ''/pytest.ini'']"
  let ?s0 = "emit (Info_rhiza_branch branch) (emit (Info_target_repository target) s)"
  let ?log = "logged s @
                  [Info_target_repository target, Info_rhiza_branch branch,
                   Info_creating_default, Success_template_created, Info_include_paths]
                  @ map Info_include_item default_include"
  let ?logc = "logged s @
                  [Info_target_repository target, Info_rhiza_branch branch,
                   Info_creating_default, Success_template_created, Info_include_paths]
                  @ map Info_include_item default_include
                  @ [Info_cloning ?repo (YStr branch)]"
  have git0: "is_dir (fs ?s0) (target @ [''.git''])" using git by (simp add: emit_def)
  have absent0: "\<not> path_exists (fs ?s0) ?mf" using absent by (simp add: emit_def)
  have nofile0: "\<And>c. lookup (fs ?s0) ?gh \<noteq> Some (File c)" using nofile by (simp add: emit_def)
  from git0 absent0 nofile0 obtain f where
    mk: "mkdir_parents ?gh (fs ?s0) = Inr f"
    and ens: "ensure_template env target branch ?s0
           = (None, emit Success_template_created
                ((emit Info_creating_default ?s0)\<lparr>fs := put ?mf (Some (File ?text)) f\<rparr>))"
    and lk: "lookup (put ?mf (Some (File ?text)) f) ?mf = Some (File ?text)"
    by (rule default_manifest_written)
  let ?f1 = "put ?mf (Some (File ?text)) f"
  let ?s1 = "emit Success_template_created ((emit Info_creating_default ?s0)\<lparr>fs := ?f1\<rparr>)"
  let ?kvs = "[(YStr ''template-repository'', ?repo),
               (YStr ''template-branch'', YStr branch),
               (YStr ''include'', YSeq default_include)]"
  have load: "load_template env target (fs ?s1) = Inr (YMap ?kvs)"
    using lk codec by (simp add: load_template_def emit_def template_content_def)
  have ne: "default_include \<noteq> []" by (simp add: default_include_def)
  have t: "truthy (dict_get ?kvs ''include'' (YSeq []))" using ne by (simp add: dict_get_def)
  have it: "py_iter (dict_get ?kvs ''include'' (YSeq [])) = Some default_include"
    by (simp add: dict_get_def)
  let ?S = "s\<lparr>fs := ?f1, logged := ?log\<rparr>"
  have inj: "inject env target branch frc s
               = materialize env target frc ?repo (YStr branch) default_include ?S" for frc
    unfolding inject_loaded[OF git ens load t it, of frc]
    by (simp add: dict_get_def emit_def)
  have a1: "fst (inject env target branch force s) \<noteq> Some (SystemExit 1)"
    unfolding inj by (rule materialize_no_exit)
  have a2: "prefix ?log (logged (snd (inject env target branch force s)))"
    unfolding inj using materialize_log_prefix[of ?S env target force ?repo "YStr branch"
        default_include] by simp
  have q: "stat (fs ?S) ?mf \<noteq> Missing" using lk by (simp add: stat_def)
  have "stat (fs (snd (materialize env target False ?repo (YStr branch) default_include ?S))) ?mf
          = stat (fs ?S) ?mf"
    using q by (rule materialize_keeps) simp
  then have "stat (fs (snd (inject env target branch False s))) ?mf = Regular ?text"
    unfolding inj using lk by (simp add: stat_def)
  then have a3: "lookup (fs (snd (inject env target branch False s))) ?mf = Some (File ?text)"
    by (simp add: stat_simps(3))
  have b: "prefix (calls s @ [Mkdtemp (tmp_dir env), Clone ?repo branch])
              (calls (snd (inject env target branch force s)))
          \<and> prefix ?logc (logged (snd (inject env target branch force s)))
          \<and> (checkout env ?repo branch ?ps = Some c3 \<longrightarrow>
              calls (snd (inject env target branch force s))
                = calls s @ [Mkdtemp (tmp_dir env), Clone ?repo branch, Sparse_init,
                    Sparse_set ?ps])"
    if nul: "CHR 0x00 \<notin> set branch" and tmp: "mkdtemp env (fs s) = Inr f0"
      and out: "\<not> prefix target (tmp_dir env)"
  proof -
    have f: "mkdir_parents ?gh (fs s) = Inr f" using mk by (simp add: emit_def)
    have par1: "tmp_dir env \<parallel> ?gh" using tmp git out by (rule scratch_parallel)
    have par2: "tmp_dir env \<parallel> ?mf"
      using scratch_parallel[OF tmp git out, of "[''.github'', ''template.yml'']"]
      by (simp add: template_file_def)
    from par1 have "\<not> prefix (tmp_dir env) ?gh" by (simp add: parallel_def)
    with f have "lookup f (tmp_dir env) = lookup (fs s) (tmp_dir env)"
      by (rule mkdir_parents_elsewhere)
    moreover from par2 have "?mf \<parallel> tmp_dir env" by (simp add: parallel_def)
    then have "lookup ?f1 (tmp_dir env) = lookup f (tmp_dir env)" by (rule lookup_put_parallel)
    ultimately have ab: "\<not> path_exists ?f1 (tmp_dir env)"
      using mkdtemp_created(3)[OF tmp] by (simp add: path_exists_def)
    have "is_dir f (butlast (tmp_dir env))"
      using f mkdtemp_created(5)[OF tmp] by (rule mkdir_parents_keeps_dir)
    moreover have "\<not> prefix ?mf (butlast (tmp_dir env))"
    proof
      assume "prefix ?mf (butlast (tmp_dir env))"
      then have "prefix ?mf (tmp_dir env)"
        using prefix_order.trans[OF _ prefixeq_butlast] by blast
      with par2 show False by (simp add: parallel_def)
    qed
    ultimately have par: "is_dir ?f1 (butlast (tmp_dir env))" by (rule is_dir_put_not_below)
    have tmp1: "mkdtemp env (fs ?S) = Inr (put (tmp_dir env) (Some (Dir Map.empty)) ?f1)"
      using ab par mkdtemp_created(1)[OF tmp] by (simp add: mkdtemp_def)
    let ?s3 = "emit (Info_cloning ?repo (YStr branch))
                 (called (Mkdtemp (tmp_dir env))
                    (?S\<lparr>fs := put (tmp_dir env) (Some (Dir Map.empty)) ?f1\<rparr>))"
    obtain r s4 where tb: "try_body env target force ?repo (YStr branch) default_include ?s3
                             = (r, s4)" by force
    have url: "\<not> nul_in_url ?repo" by (simp add: nul_in_url_def)
    have fin: "calls (snd (inject env target branch force s)) = calls s4"
      unfolding inj by (rule materialize_calls(1)[OF tmp1 tb])
    from try_body_clone_called[OF tb nul url]
    have b1: "prefix (calls s @ [Mkdtemp (tmp_dir env), Clone ?repo branch])
                (calls (snd (inject env target branch force s)))"
      unfolding fin by (simp add: emit_def called_def)
    have b2: "prefix ?logc (logged (snd (inject env target branch force s)))"
      unfolding inj using materialize_cloning_logged[OF tmp1, of ?repo "YStr branch" target force
          default_include] by simp
    have b3: "calls (snd (inject env target branch force s))
                = calls s @ [Mkdtemp (tmp_dir env), Clone ?repo branch, Sparse_init,
                    Sparse_set ?ps]"
      if co: "checkout env ?repo branch ?ps = Some c3"
      unfolding fin
      using try_body_checked_out[OF nul url argv_default_include co tb]
      by (simp add: emit_def called_def)
    from b1 b2 b3 show ?thesis by blast
  qed
  from a1 a2 a3 b show ?thesis by blast
qed

theorem inject_creates_default_manifest_witness:
  "is_dir (fs (start bare_repo)) ([''repo''] @ [''.git''])
   \<and> \<not> path_exists (fs (start bare_repo)) (template_file [''repo''])
   \<and> lookup (fs (start bare_repo)) ([''repo''] @ [''.github'']) = None
   \<and> yaml_safe_load env0 (yaml_dump env0 (template_content ''main''))
       = Some (template_content ''main'')
   \<and> CHR 0x00 \<notin> set ''main''
   \<and> mkdtemp env0 (fs (start bare_repo))
       = Inr (put [''tmp'', ''scratch''] (Some (Dir Map.empty)) bare_repo)
   \<and> \<not> prefix [''repo''] (tmp_dir env0)
   \<and> checkout env0 (YStr ''jebel-quant/rhiza'') ''main''
        [''.github'', ''/.editorconfig'', ''/.gitignore'', ''/.pre-commit-config.yaml'',
         ''/Makefile'', ''/pytest.ini''] = Some upstream
   \<and> fst (inject env0 [''repo''] ''main'' False (start bare_repo)) \<noteq> Some (SystemExit 1)
   \<and> lookup (fs (snd (inject env0 [''repo''] ''main'' False (start bare_repo))))
       (template_file [''repo'']) = Some (File default_text)
   \<and> calls (snd (inject env0 [''repo''] ''main'' False (start bare_repo)))
       = [Mkdtemp [''tmp'', ''scratch''], Clone (YStr ''jebel-quant/rhiza'') ''main'',
          Sparse_init,
          Sparse_set [''.github'', ''/.editorconfig'', ''/.gitignore'',
            ''/.pre-commit-config.yaml'', ''/Makefile'', ''/pytest.ini'']]
   \<and> prefix ([Info_target_repository [''repo''], Info_rhiza_branch ''main'',
               Info_creating_default, Success_template_created, Info_include_paths]
              @ map Info_include_item default_include
              @ [Info_cloning (YStr ''jebel-quant/rhiza'') (YStr ''main'')])
        (logged (snd (inject env0 [''repo''] ''main'' False (start bare_repo))))"
proof -
  let ?ps = "[''.github'', ''/.editorconfig'', ''/.gitignore'', ''/.pre-commit-config.yaml'',
              ''/Makefile'', ''/pytest.ini'']"
  have a: "is_dir (fs (start bare_repo)) ([''repo''] @ [''.git''])"
    by (simp add: is_dir_def start_def bare_repo_def)
  have b: "\<not> path_exists (fs (start bare_repo)) (template_file [''repo''])"
    by (simp add: path_exists_def start_def bare_repo_def template_file_def)
  have c0: "lookup (fs (start bare_repo)) ([''repo''] @ [''.github'']) = None"
    by (simp add: start_def bare_repo_def)
  then have c: "\<And>c. lookup (fs (start bare_repo)) ([''repo''] @ [''.github'']) \<noteq> Some (File c)"
    by simp
  have d: "yaml_safe_load env0 (yaml_dump env0 (template_content ''main''))
       = Some (template_content ''main'')"
    by (simp add: env0_def manifests_def manifest_text_def default_text_def)
  have e: "CHR 0x00 \<notin> set ''main''" by simp
  have f: "mkdtemp env0 (fs (start bare_repo))
       = Inr (put [''tmp'', ''scratch''] (Some (Dir Map.empty)) bare_repo)"
    by (simp add: mkdtemp_def env0_def start_def bare_repo_def path_exists_def is_dir_def)
  have g: "\<not> prefix [''repo''] (tmp_dir env0)" by (simp add: env0_def)
  have h: "checkout env0 (YStr ''jebel-quant/rhiza'') ''main'' ?ps = Some upstream"
    by (simp add: checkout_def env0_def)
  have t: "tmp_dir env0 = [''tmp'', ''scratch'']" by (simp add: env0_def)
  have y: "yaml_dump env0 (template_content ''main'') = default_text" by (simp add: env0_def)
  have l: "logged (start bare_repo) = []" "calls (start bare_repo) = []"
    by (simp_all add: start_def)
  from inject_creates_default_manifest[where force = False and branch = "''main''"
      and ?f0.0 = "put [''tmp'', ''scratch''] (Some (Dir Map.empty)) bare_repo"
      and ?c3.0 = upstream, OF a b c d]
    a b c0 d e f g h
  show ?thesis unfolding t y l by simp
qed

theorem inject_default_manifest_blocked_counterexample:
  "is_dir (fs (start blocked_repo)) [''repo'', ''.git'']
   \<and> \<not> path_exists (fs (start blocked_repo)) (template_file [''repo''])
   \<and> inject env0 [''repo''] ''main'' False (start blocked_repo)
       = (Some FileExistsError,
          \<lparr>fs = blocked_repo,
           logged = [Info_target_repository [''repo''], Info_rhiza_branch ''main''],
           calls = []\<rparr>)
   \<and> inject env0 [''repo''] ''main'' True (start blocked_repo)
       = (Some FileExistsError,
          \<lparr>fs = blocked_repo,
           logged = [Info_target_repository [''repo''], Info_rhiza_branch ''main''],
           calls = []\<rparr>)"
  by (simp add: run_defs world_defs blocked_repo_def Let_def)

text \<open>The same repository with force: the run succeeds, and the manifest after the run is
  the one of the template repository, not the default one that the run wrote.\<close>

lemma inject_default_manifest_forced:
  "\<not> path_exists (fs (start bare_repo)) (template_file [''repo''])
   \<and> fst (inject env0 [''repo''] ''main'' True (start bare_repo)) = None
   \<and> lookup (fs (snd (inject env0 [''repo''] ''main'' True (start bare_repo))))
       (template_file [''repo'']) = Some (File (manifest_text ''.github, Makefile''))"
  by (simp add: run_defs world_defs Let_def)


section \<open>The manifest after the run\<close>

text \<open>
  Claim C6, as amended.  The claim says that a manifest that exists at the start is never
  changed, for any include list and any force value.  With force, an include entry that
  names \<^verbatim>\<open>.github\<close> (as the default list does), the manifest itself or the target root
  makes the loop remove that destination and copy the upstream one: the manifest is
  replaced by upstream's \<^verbatim>\<open>.github/template.yml\<close>, or is gone when upstream has none.

  What holds: a manifest that exists at the start has the same content after the run when
  force is false, and also with force when no include entry has the manifest path or a
  directory above it as its destination (entries without a \<^verbatim>\<open>..\<close> component).
\<close>

theorem inject_keeps_manifest:
  assumes "lookup (fs s) (template_file target) = Some (File c)"
    and "\<forall>p\<in>set (include_entries env c). plain p"
    and "force \<Longrightarrow> \<forall>p\<in>set (include_entries env c).
                      \<not> prefix (joinpath target p) (template_file target)"
  shows "lookup (fs (snd (inject env target branch force s))) (template_file target)
           = Some (File c)"
proof -
  have q: "stat (fs s) (template_file target) \<noteq> Missing" using assms(1) by (simp add: stat_def)
  have "stat (fs (snd (inject env target branch force s))) (template_file target)
          = stat (fs s) (template_file target)"
  proof (cases force)
    case True
    with assms(3) show ?thesis using inject_keeps_forced[OF assms(1) q] by simp
  next
    case False
    then show ?thesis using inject_keeps[OF q] by simp
  qed
  with assms(1) show ?thesis by (simp add: stat_simps(3)[symmetric])
qed

theorem inject_replaces_manifest_counterexample:
  "lookup (fs (start (repo_with (manifest_text ''.github'')))) (template_file [''repo''])
     = Some (File (manifest_text ''.github''))
   \<and> fst (inject env0 [''repo''] ''main'' True (start (repo_with (manifest_text ''.github''))))
       = None
   \<and> lookup (fs (snd (inject env0 [''repo''] ''main'' True
                         (start (repo_with (manifest_text ''.github''))))))
        (template_file [''repo''])
       = Some (File (manifest_text ''.github, Makefile''))
   \<and> manifest_text ''.github, Makefile'' \<noteq> manifest_text ''.github''"
proof -
  have a: "lookup (fs (start (repo_with (manifest_text ''.github'')))) (template_file [''repo''])
     = Some (File (manifest_text ''.github''))"
    by (simp add: start_def repo_with_def template_file_def)
  have b: "fst (inject env0 [''repo''] ''main'' True (start (repo_with (manifest_text ''.github''))))
       = None"
    by (simp add: run_defs world_defs Let_def)
  have c: "lookup (fs (snd (inject env0 [''repo''] ''main'' True
                         (start (repo_with (manifest_text ''.github''))))))
        (template_file [''repo''])
       = Some (File (manifest_text ''.github, Makefile''))"
    by (simp add: run_defs world_defs Let_def)
  have d: "manifest_text ''.github, Makefile'' \<noteq> manifest_text ''.github''"
    by (simp add: manifest_text_def)
  from a b c d show ?thesis by blast
qed

theorem inject_keeps_manifest_witness:
  "lookup (fs (start (repo_with (manifest_text ''Makefile, a'')))) (template_file [''repo''])
     = Some (File (manifest_text ''Makefile, a''))
   \<and> include_entries env0 (manifest_text ''Makefile, a'') = [''Makefile'', ''a'']
   \<and> plain ''Makefile'' \<and> plain ''a''
   \<and> \<not> prefix (joinpath [''repo''] ''Makefile'') (template_file [''repo''])
   \<and> \<not> prefix (joinpath [''repo''] ''a'') (template_file [''repo''])
   \<and> lookup (fs (snd (inject env0 [''repo''] ''main'' True
                         (start (repo_with (manifest_text ''Makefile, a''))))))
        (template_file [''repo''])
       = Some (File (manifest_text ''Makefile, a''))"
proof -
  let ?s = "start (repo_with (manifest_text ''Makefile, a''))"
  have a: "lookup (fs ?s) (template_file [''repo'']) = Some (File (manifest_text ''Makefile, a''))"
    by (simp add: start_def repo_with_def template_file_def)
  have e: "include_entries env0 (manifest_text ''Makefile, a'') = [''Makefile'', ''a'']"
    by (simp add: include_entries_def env0_def manifests_def manifest_text_def manifest_value_def
        dict_get_def)
  have p: "plain ''Makefile''" "plain ''a''" by (simp_all add: plain_def parts_def)
  have n: "\<not> prefix (joinpath [''repo''] ''Makefile'') (template_file [''repo''])"
    "\<not> prefix (joinpath [''repo''] ''a'') (template_file [''repo''])"
    by (simp_all add: joinpath_def parts_def is_absolute_def template_file_def)
  have b: "\<forall>p\<in>set (include_entries env0 (manifest_text ''Makefile, a'')). plain p"
    using p by (simp add: e)
  have c: "\<forall>p\<in>set (include_entries env0 (manifest_text ''Makefile, a'')).
             \<not> prefix (joinpath [''repo''] p) (template_file [''repo''])"
    using n by (simp add: e)
  from inject_keeps_manifest[where force = True and branch = "''main''", OF a b c] a e p n show ?thesis by blast
qed
section \<open>Existing destinations without force\<close>





section \<open>Entries that the checkout does not have\<close>

text \<open>
  Claim C9.  An include entry that is missing in the checkout is meant to be skipped with
  a warning (lines 114 to 116), and the run to go on.  Line 111 looks for the entry at
  \<^verbatim>\<open>tmp_dir / path\<close>, which for an entry with a leading \<^verbatim>\<open>/\<close> (the form of five of the six
  default entries) is the path itself on the host, not a path in the checkout; line 112
  computes the same path as the destination.  Below, the manifest includes \<^verbatim>\<open>/data\<close>, the
  checkout has no \<^verbatim>\<open>data\<close>, and the host has a regular file \<^verbatim>\<open>/data\<close>.  With force the run
  removes \<^verbatim>\<open>/data\<close> as the old destination, fails to copy it as the source and ends with
  FileNotFoundError, without the warning.  Without force the run ends normally, with the
  warning that the entry already exists instead of the one that it was not found.
\<close>

theorem inject_absolute_entry_not_skipped:
  "include_entries env0 (manifest_text ''/data'') = [''/data'']
   \<and> checkout env0 (YStr ''o/t'') ''main'' [''/data''] = Some upstream
   \<and> \<not> path_exists (Dir upstream) (parts ''/data'')
   \<and> joinpath (tmp_dir env0) ''/data'' = [''data'']
   \<and> joinpath [''repo''] ''/data'' = [''data'']
   \<and> lookup (fs (start (repo_with (manifest_text ''/data'')))) [''data''] = Some (File ''host'')
   \<and> fst (inject env0 [''repo''] ''main'' True (start (repo_with (manifest_text ''/data''))))
       = Some FileNotFoundError
   \<and> lookup (fs (snd (inject env0 [''repo''] ''main'' True
                        (start (repo_with (manifest_text ''/data'')))))) [''data''] = None
   \<and> Warning_not_found ''/data''
       \<notin> set (logged (snd (inject env0 [''repo''] ''main'' True
                              (start (repo_with (manifest_text ''/data''))))))
   \<and> fst (inject env0 [''repo''] ''main'' False (start (repo_with (manifest_text ''/data''))))
       = None
   \<and> logged (snd (inject env0 [''repo''] ''main'' False
                     (start (repo_with (manifest_text ''/data'')))))
       = [Info_target_repository [''repo''], Info_rhiza_branch ''main'',
          Info_using_existing, Info_include_paths, Info_include_item (YStr ''/data''),
          Info_cloning (YStr ''o/t'') (YStr ''main''),
          Warning_already_exists ''/data'', Success_materialized, Info_next_steps]"
proof -
  let ?c = "manifest_text ''/data''"
  let ?s = "start (repo_with ?c)"
  have c: "yaml_safe_load env0 ?c = Some (manifest_value [''/data''])"
    by (simp add: env0_def manifests_def manifest_text_def)
  have a: "include_entries env0 ?c = [''/data'']"
    by (simp add: include_entries_def c manifest_value_def dict_get_def)
  have b: "checkout env0 (YStr ''o/t'') ''main'' [''/data''] = Some upstream"
    by (simp add: checkout_def env0_def)
  have d: "\<not> path_exists (Dir upstream) (parts ''/data'')"
    by (simp add: path_exists_def upstream_def parts_def)
  have e: "joinpath (tmp_dir env0) ''/data'' = [''data'']" "joinpath [''repo''] ''/data'' = [''data'']"
    by (simp_all add: joinpath_def is_absolute_def parts_def)
  have f: "lookup (fs ?s) [''data''] = Some (File ''host'')"
    by (simp add: start_def repo_with_def)
  have g: "fst (inject env0 [''repo''] ''main'' True ?s) = Some FileNotFoundError"
    by (simp add: run_defs world_defs Let_def)
  have h: "lookup (fs (snd (inject env0 [''repo''] ''main'' True ?s))) [''data''] = None"
    by (simp add: run_defs world_defs Let_def)
  have i: "Warning_not_found ''/data''
       \<notin> set (logged (snd (inject env0 [''repo''] ''main'' True ?s)))"
    by (simp add: run_defs world_defs Let_def)
  have j: "fst (inject env0 [''repo''] ''main'' False ?s) = None"
    by (simp add: run_defs world_defs Let_def)
  have k: "logged (snd (inject env0 [''repo''] ''main'' False ?s))
       = [Info_target_repository [''repo''], Info_rhiza_branch ''main'',
          Info_using_existing, Info_include_paths, Info_include_item (YStr ''/data''),
          Info_cloning (YStr ''o/t'') (YStr ''main''),
          Warning_already_exists ''/data'', Success_materialized, Info_next_steps]"
    by (simp add: run_defs world_defs Let_def)
  from a b d e f g h i j k show ?thesis by blast
qed

section \<open>Existing destinations with force\<close>





end
